theory Spec2Isabelle
  imports Main "HOL-Library.Char_ord" "HOL-Library.Mapping" "HOL-Library.AList_Mapping"
    "HOL-Library.Word"
begin

section \<open>The shared random source\<close>

text \<open>
  The processors of \<^verbatim>\<open>processors.go\<close> draw from the global source of \<^verbatim>\<open>math/rand\<close>.
  The source is modelled as the infinite sequence of raw values it is going to deliver;
  any sequence is allowed, so a statement for all sequences covers every seed and every
  interleaving of draws. A Go string is a sequence of bytes, as is a HOL \<open>string\<close>.
\<close>

type_synonym rng = "nat \<Rightarrow> nat"

datatype panic =
    IntnInvalidArgument       \<comment> \<open>\<^verbatim>\<open>rand.Intn(n)\<close> with \<^verbatim>\<open>n <= 0\<close>\<close>
  | IndexOutOfRange           \<comment> \<open>\<^verbatim>\<open>s[i]\<close> outside the string\<close>
  | SliceBoundsOutOfRange     \<comment> \<open>\<^verbatim>\<open>s[:n]\<close> or \<^verbatim>\<open>s[n:]\<close> beyond the length\<close>
  | AssignmentToNilMap        \<comment> \<open>\<^verbatim>\<open>m[k] = v\<close> on a nil map\<close>

definition advance :: "rng \<Rightarrow> rng" where
  "advance g = (\<lambda>i. g (Suc i))"

text \<open>\<^verbatim>\<open>rand.Intn(n)\<close>: a value in \<open>[0, n)\<close>; it panics when \<open>n \<le> 0\<close>.\<close>

definition Intn :: "int \<Rightarrow> rng \<Rightarrow> panic + (int \<times> rng)" where
  "Intn n g = (if n \<le> 0 then Inl IntnInvalidArgument
               else Inr (int (g 0) mod n, advance g))"

text \<open>Indexing a string, \<^verbatim>\<open>s[i]\<close>, with the run-time bounds check of Go.\<close>

definition index :: "string \<Rightarrow> int \<Rightarrow> panic + char" where
  "index s i = (if 0 \<le> i \<and> i < int (length s) then Inr (s ! nat i) else Inl IndexOutOfRange)"

section \<open>The character-class scrambler\<close>

definition lowercaseSet :: string where
  "lowercaseSet = ''abcdefghijklmnopqrstuvwxyz''"

definition uppercaseSet :: string where
  "uppercaseSet = ''ABCDEFGHIJKLMNOPQRSTUVWXYZ''"

definition numericSet :: string where
  "numericSet = ''0123456789''"

definition lowercaseSetLen :: int where "lowercaseSetLen = 26"
definition uppercaseSetLen :: int where "uppercaseSetLen = 26"
definition numericSetLen :: int where "numericSetLen = 10"

text \<open>\<^verbatim>\<open>string(set[rand.Intn(setLen)])\<close>, the body shared by the three pickers.\<close>

definition pick :: "string \<Rightarrow> int \<Rightarrow> rng \<Rightarrow> panic + (string \<times> rng)" where
  "pick set' n g =
     (case Intn n g of
        Inl p \<Rightarrow> Inl p
      | Inr (i, g') \<Rightarrow> (case index set' i of Inl p \<Rightarrow> Inl p | Inr c \<Rightarrow> Inr ([c], g')))"

definition randomLowercase :: "rng \<Rightarrow> panic + (string \<times> rng)" where
  "randomLowercase g = pick lowercaseSet lowercaseSetLen g"

definition randomUppercase :: "rng \<Rightarrow> panic + (string \<times> rng)" where
  "randomUppercase g = pick uppercaseSet uppercaseSetLen g"

definition randomNumeric :: "rng \<Rightarrow> panic + (string \<times> rng)" where
  "randomNumeric g = pick numericSet numericSetLen g"

definition is_lower :: "char \<Rightarrow> bool" where
  "is_lower c = (CHR ''a'' \<le> c \<and> c \<le> CHR ''z'')"

definition is_upper :: "char \<Rightarrow> bool" where
  "is_upper c = (CHR ''A'' \<le> c \<and> c \<le> CHR ''Z'')"

definition is_digit :: "char \<Rightarrow> bool" where
  "is_digit c = (CHR ''0'' \<le> c \<and> c \<le> CHR ''9'')"

text \<open>One iteration of the loop of \<^verbatim>\<open>scrambleString\<close>: the \<^verbatim>\<open>switch\<close> on the byte.\<close>

definition scrambleByte :: "char \<Rightarrow> rng \<Rightarrow> panic + (string \<times> rng)" where
  "scrambleByte c g =
     (if is_lower c then randomLowercase g
      else if is_upper c then randomUppercase g
      else if is_digit c then randomNumeric g
      else Inr ([c], g))"

text \<open>The loop over the bytes of the input; the builder's content is the result.\<close>

fun scrambleString :: "string \<Rightarrow> rng \<Rightarrow> panic + (string \<times> rng)" where
  "scrambleString [] g = Inr ([], g)"
| "scrambleString (c # cs) g =
     (case scrambleByte c g of
        Inl p \<Rightarrow> Inl p
      | Inr (w, g') \<Rightarrow>
          (case scrambleString cs g' of
             Inl p \<Rightarrow> Inl p
           | Inr (out, g'') \<Rightarrow> Inr (w @ out, g'')))"

section \<open>Column metadata, errors and the consistency maps\<close>

text \<open>
  Modelled from the spec: the struct \<^verbatim>\<open>ColumnMapper\<close> is declared in another file of
  the package. The column metadata of the specification carries the parent schema, the
  parent table and the parent column a column is linked to; these three are the only
  fields that \<^verbatim>\<open>processors.go\<close> reads. A processor receives a pointer to the struct;
  the model passes the struct itself, so the pointer is taken not to be nil.
\<close>

record ColumnMapper =
  ParentSchema :: string
  ParentTable :: string
  ParentColumn :: string

text \<open>
  A Go \<^verbatim>\<open>error\<close> is \<open>error option\<close>, \<open>None\<close> being \<^verbatim>\<open>nil\<close>. The values are the
  errors of \<^verbatim>\<open>uuid.Parse\<close> and of \<^verbatim>\<open>uuid.NewRandom\<close>.
\<close>

datatype error =
    invalidLengthError nat
  | invalidUrnPrefix string
  | invalidUUIDFormat
  | randReadError

text \<open>\<^verbatim>\<open>type UUID [16]byte\<close> of \<^verbatim>\<open>github.com/google/uuid\<close>.\<close>

type_synonym UUID = "8 word list"

text \<open>
  The package-level variables and the two sources of randomness: \<open>rand\<close> is the global
  source of \<^verbatim>\<open>math/rand\<close>, \<open>rander\<close> the sequence of results that \<^verbatim>\<open>uuid.NewRandom\<close>
  is going to return (a fresh UUID, or the error of reading its entropy source).
\<close>

record state =
  AlphaNumericMap :: "(string, (string, string) mapping) mapping"
  UUIDMap :: "(UUID, UUID) mapping"
  IBANMap :: "(string, string) mapping"
  rand :: rng
  rander :: "nat \<Rightarrow> error + UUID"

text \<open>The maps as their declarations initialise them, all three empty.\<close>

definition init :: "rng \<Rightarrow> (nat \<Rightarrow> error + UUID) \<Rightarrow> state" where
  "init g r = \<lparr>AlphaNumericMap = Mapping.empty, UUIDMap = Mapping.empty,
                IBANMap = Mapping.empty, rand = g, rander = r\<rparr>"

text \<open>
  \<^verbatim>\<open>len(m) < 1\<close> for a map read out of a map: \<open>None\<close> is the nil map of a missing key,
  whose length is 0.
\<close>

definition lenLessThan1 :: "('k, 'v) mapping option \<Rightarrow> bool" where
  "lenLessThan1 m = (case m of None \<Rightarrow> True | Some m' \<Rightarrow> Mapping.is_empty m')"

text \<open>
  \<^verbatim>\<open>m[k1][k2]\<close>: a missing key reads as the zero value, here the empty string. An
  inner map is created by the alphanumeric processor and stored under one key of the outer
  map only, so no two keys share an inner map and writing into it is writing under that key.
\<close>

definition nested :: "(string, (string, string) mapping) mapping \<Rightarrow> string \<Rightarrow> string \<Rightarrow> string" where
  "nested m k1 k2 =
     (case Mapping.lookup m k1 of
        None \<Rightarrow> []
      | Some inner \<Rightarrow> (case Mapping.lookup inner k2 of None \<Rightarrow> [] | Some v \<Rightarrow> v))"

text \<open>The slices \<^verbatim>\<open>s[:n]\<close> and \<^verbatim>\<open>s[n:]\<close> with their bounds check.\<close>

definition sliceTo :: "string \<Rightarrow> nat \<Rightarrow> panic + string" where
  "sliceTo s n = (if n \<le> length s then Inr (take n s) else Inl SliceBoundsOutOfRange)"

definition sliceFrom :: "string \<Rightarrow> nat \<Rightarrow> panic + string" where
  "sliceFrom s n = (if n \<le> length s then Inr (drop n s) else Inl SliceBoundsOutOfRange)"

section \<open>The processors\<close>

text \<open>
  A \<^verbatim>\<open>ProcessorFunc\<close> takes the column metadata and the input and returns a string and
  an error; here it also takes the state and returns the new one, or it panics.
\<close>

type_synonym ProcessorFunc =
  "ColumnMapper \<Rightarrow> string \<Rightarrow> state \<Rightarrow> panic + (string \<times> error option \<times> state)"

definition ProcessorIBANScrambler :: ProcessorFunc where
  "ProcessorIBANScrambler cmap input st =
     (case Mapping.lookup (IBANMap st) input of
        Some annonymizedIBAN \<Rightarrow> Inr (annonymizedIBAN, None, st)
      | None \<Rightarrow>
          (case sliceTo input 2 of
             Inl p \<Rightarrow> Inl p
           | Inr prefix \<Rightarrow>
               (case sliceFrom input 2 of
                  Inl p \<Rightarrow> Inl p
                | Inr rest \<Rightarrow>
                    (case scrambleString rest (rand st) of
                       Inl p \<Rightarrow> Inl p
                     | Inr (scrambled, g') \<Rightarrow>
                         (let newAnnonymizedIBAN = prefix @ scrambled
                          in Inr (newAnnonymizedIBAN, None,
                                  st\<lparr>IBANMap := Mapping.update input newAnnonymizedIBAN (IBANMap st),
                                     rand := g'\<rparr>))))))"

text \<open>\<^verbatim>\<open>fmt.Sprintf("%s.%s.%s", cmap.ParentSchema, cmap.ParentTable, cmap.ParentColumn)\<close>\<close>

definition parentKey :: "ColumnMapper \<Rightarrow> string" where
  "parentKey cmap = ParentSchema cmap @ ''.'' @ ParentTable cmap @ ''.'' @ ParentColumn cmap"

definition ProcessorAlphaNumericScrambler :: ProcessorFunc where
  "ProcessorAlphaNumericScrambler cmap input st =
     (let key = parentKey cmap in
      if ParentSchema cmap \<noteq> [] \<and> ParentTable cmap \<noteq> [] \<and> ParentColumn cmap \<noteq> [] then
        (let st1 = (if lenLessThan1 (Mapping.lookup (AlphaNumericMap st) key)
                    then st\<lparr>AlphaNumericMap := Mapping.update key Mapping.empty (AlphaNumericMap st)\<rparr>
                    else st)
         in if length (nested (AlphaNumericMap st1) key input) < 1 then
              (case scrambleString input (rand st1) of
                 Inl p \<Rightarrow> Inl p
               | Inr (scramble, g') \<Rightarrow>
                   (case Mapping.lookup (AlphaNumericMap st1) key of
                      None \<Rightarrow> Inl AssignmentToNilMap
                    | Some inner \<Rightarrow>
                        Inr (scramble, None,
                             st1\<lparr>AlphaNumericMap :=
                                   Mapping.update key (Mapping.update input scramble inner)
                                     (AlphaNumericMap st1),
                                 rand := g'\<rparr>)))
            else Inr (nested (AlphaNumericMap st1) key input, None, st1))
      else
        (case scrambleString input (rand st) of
           Inl p \<Rightarrow> Inl p
         | Inr (scramble, g') \<Rightarrow> Inr (scramble, None, st\<lparr>rand := g'\<rparr>)))"

definition ProcessorIdentity :: ProcessorFunc where
  "ProcessorIdentity cmap input st = Inr (input, None, st)"

definition ProcessorEmptyJson :: ProcessorFunc where
  "ProcessorEmptyJson cmap input st = Inr (''{}'', None, st)"

definition ProcessorRandomBoolean :: ProcessorFunc where
  "ProcessorRandomBoolean cmap input st =
     (case Intn 2 (rand st) of
        Inl p \<Rightarrow> Inl p
      | Inr (r, g') \<Rightarrow> Inr (if r = 0 then ''TRUE'' else ''FALSE'', None, st\<lparr>rand := g'\<rparr>))"

text \<open>\<^verbatim>\<open>uuid.NewRandom()\<close>: the next result of the UUID generator.\<close>

definition NewRandom :: "state \<Rightarrow> (error + UUID) \<times> state" where
  "NewRandom st = (rander st 0, st\<lparr>rander := (\<lambda>i. rander st (Suc i))\<rparr>)"

text \<open>
  \<^verbatim>\<open>uuid.Parse\<close> and \<^verbatim>\<open>UUID.String\<close> belong to the library, not to this package: the
  processors take them as the parameters \<open>Parse\<close> and \<open>String\<close>.
\<close>

definition randomizeUUID :: "(UUID \<Rightarrow> string) \<Rightarrow> UUID \<Rightarrow> state \<Rightarrow> string \<times> error option \<times> state" where
  "randomizeUUID String input st =
     (case Mapping.lookup (UUIDMap st) input of
        None \<Rightarrow>
          (case NewRandom st of
             (Inl err, st') \<Rightarrow> ([], Some err, st')
           | (Inr finalUUID, st') \<Rightarrow>
               (String finalUUID, None,
                st'\<lparr>UUIDMap := Mapping.update input finalUUID (UUIDMap st')\<rparr>))
      | Some finalUUID \<Rightarrow> (String finalUUID, None, st))"

definition ProcessorRandomUUID ::
  "(string \<Rightarrow> error + UUID) \<Rightarrow> (UUID \<Rightarrow> string) \<Rightarrow> ProcessorFunc" where
  "ProcessorRandomUUID Parse String cmap input st =
     (case Parse input of
        Inl err \<Rightarrow> Inr ([], Some err, st)
      | Inr inputID \<Rightarrow> Inr (randomizeUUID String inputID st))"

section \<open>The UUID library\<close>

text \<open>
  The functions of \<^verbatim>\<open>github.com/google/uuid\<close> that the processor calls, written after
  the library's documentation: \<^verbatim>\<open>Parse\<close> accepts the 36 byte form
  \<^verbatim>\<open>xxxxxxxx-xxxx-xxxx-xxxx-xxxxxxxxxxxx\<close>, the same after \<^verbatim>\<open>urn:uuid:\<close> or between
  braces, and 32 hexadecimal digits; any other length is an error. \<^verbatim>\<open>String\<close> prints
  the 36 byte form in lowercase. They instantiate the parameters \<open>Parse\<close> and \<open>String\<close>
  where a statement is about a concrete input.
\<close>

definition xvalue :: "char \<Rightarrow> nat" where
  "xvalue c =
     (if is_digit c then of_char c - 48
      else if CHR ''a'' \<le> c \<and> c \<le> CHR ''f'' then of_char c - 87
      else if CHR ''A'' \<le> c \<and> c \<le> CHR ''F'' then of_char c - 55
      else 255)"

definition xtob :: "char \<Rightarrow> char \<Rightarrow> (8 word) option" where
  "xtob x1 x2 =
     (let b1 = xvalue x1; b2 = xvalue x2
      in if b1 \<noteq> 255 \<and> b2 \<noteq> 255 then Some (of_nat (b1 * 16 + b2)) else None)"

fun hexPairs :: "string \<Rightarrow> nat list \<Rightarrow> error + UUID" where
  "hexPairs s [] = Inr []"
| "hexPairs s (x # xs) =
     (case xtob (s ! x) (s ! Suc x) of
        None \<Rightarrow> Inl invalidUUIDFormat
      | Some v \<Rightarrow> (case hexPairs s xs of Inl e \<Rightarrow> Inl e | Inr u \<Rightarrow> Inr (v # u)))"

definition toLowerASCII :: "char \<Rightarrow> char" where
  "toLowerASCII c = (if is_upper c then char_of (of_char c + (32::nat)) else c)"

text \<open>The standard form; \<open>s\<close> has at least 36 bytes here.\<close>

definition parseStandard :: "string \<Rightarrow> error + UUID" where
  "parseStandard s =
     (if s ! 8 \<noteq> CHR ''-'' \<or> s ! 13 \<noteq> CHR ''-'' \<or> s ! 18 \<noteq> CHR ''-'' \<or> s ! 23 \<noteq> CHR ''-''
      then Inl invalidUUIDFormat
      else hexPairs s [0, 2, 4, 6, 9, 11, 14, 16, 19, 21, 24, 26, 28, 30, 32, 34])"

definition uuid_Parse :: "string \<Rightarrow> error + UUID" where
  "uuid_Parse s =
     (if length s = 36 then parseStandard s
      else if length s = 36 + 9 then
        (if map toLowerASCII (take 9 s) \<noteq> ''urn:uuid:'' then Inl (invalidUrnPrefix (take 9 s))
         else parseStandard (drop 9 s))
      else if length s = 36 + 2 then parseStandard (drop 1 s)
      else if length s = 32 then
        hexPairs s [0, 2, 4, 6, 8, 10, 12, 14, 16, 18, 20, 22, 24, 26, 28, 30]
      else Inl (invalidLengthError (length s)))"

definition hexDigit :: "nat \<Rightarrow> char" where
  "hexDigit n = ''0123456789abcdef'' ! n"

definition hexByte :: "8 word \<Rightarrow> string" where
  "hexByte b = [hexDigit (unat b div 16), hexDigit (unat b mod 16)]"

definition encodeHex :: "8 word list \<Rightarrow> string" where
  "encodeHex bs = concat (map hexByte bs)"

definition uuid_String :: "UUID \<Rightarrow> string" where
  "uuid_String u =
     encodeHex (take 4 u) @ ''-'' @ encodeHex (take 2 (drop 4 u)) @ ''-'' @
     encodeHex (take 2 (drop 6 u)) @ ''-'' @ encodeHex (take 2 (drop 8 u)) @ ''-'' @
     encodeHex (drop 10 u)"

section \<open>The date randomizer\<close>

text \<open>
  A \<^verbatim>\<open>time.Time\<close> as far as \<^verbatim>\<open>randomizeDate\<close> uses it: the calendar date; the clock is
  always 00:00:00 UTC. \<^verbatim>\<open>time.Date\<close> belongs to the standard library and is written
  after its documentation: the month and the day may be outside their usual ranges and
  are normalised, so that October 32 is November 1 and day 0 is the last day of the
  month before. Go's \<^verbatim>\<open>int\<close> is read as an unbounded integer.
\<close>

record Time =
  Year :: int
  Month :: int
  Day :: int

definition isLeap :: "int \<Rightarrow> bool" where
  "isLeap y \<longleftrightarrow> y mod 4 = 0 \<and> (y mod 100 \<noteq> 0 \<or> y mod 400 = 0)"

definition daysIn :: "int \<Rightarrow> int \<Rightarrow> int" where
  "daysIn y m =
     (if m = 2 then (if isLeap y then 29 else 28)
      else if m = 4 \<or> m = 6 \<or> m = 9 \<or> m = 11 then 30
      else 31)"

text \<open>The day is brought into the month \<open>m\<close> of the year \<open>y\<close>, with \<open>m\<close> in 1 to 12.\<close>

function normalizeDay :: "int \<Rightarrow> int \<Rightarrow> int \<Rightarrow> Time" where
  "normalizeDay y m d =
     (if d < 1 then
        (if m = 1 then normalizeDay (y - 1) 12 (d + daysIn (y - 1) 12)
         else normalizeDay y (m - 1) (d + daysIn y (m - 1)))
      else if daysIn y m < d then
        (if m = 12 then normalizeDay (y + 1) 1 (d - daysIn y m)
         else normalizeDay y (m + 1) (d - daysIn y m))
      else \<lparr>Year = y, Month = m, Day = d\<rparr>)"
  by pat_completeness auto
termination
proof (relation "measure (\<lambda>(y, m, d). if d < 1 then nat (1 - d) + 32 else nat d)")
  show "wf (measure (\<lambda>(y, m, d). if d < 1 then nat (1 - d) + 32 else nat d))"
    by simp
qed (auto simp: daysIn_def)

declare normalizeDay.simps [simp del]

text \<open>\<^verbatim>\<open>time.Date(year, month, day, 0, 0, 0, 0, time.UTC)\<close>\<close>

definition time_Date :: "int \<Rightarrow> int \<Rightarrow> int \<Rightarrow> Time" where
  "time_Date year month day =
     normalizeDay (year + (month - 1) div 12) ((month - 1) mod 12 + 1) day"

definition date :: "int \<Rightarrow> int \<Rightarrow> int \<Rightarrow> Time" where
  "date year month day = time_Date year month day"

text \<open>
  \<^verbatim>\<open>Format("2006-01-02")\<close>: the year padded with zeros to four digits, the month and
  the day to two; a negative number is printed with its sign.
\<close>

definition digitChar :: "nat \<Rightarrow> char" where
  "digitChar n = char_of (48 + n)"

fun digits :: "nat \<Rightarrow> string" where
  "digits n = (if n < 10 then [digitChar n] else digits (n div 10) @ [digitChar (n mod 10)])"

declare digits.simps [simp del]

definition appendInt :: "int \<Rightarrow> nat \<Rightarrow> string" where
  "appendInt x width =
     (if x < 0 then ''-'' else []) @
     replicate (width - length (digits (nat \<bar>x\<bar>))) CHR ''0'' @ digits (nat \<bar>x\<bar>)"

definition Format :: "Time \<Rightarrow> string" where
  "Format t = appendInt (Year t) 4 @ ''-'' @ appendInt (Month t) 2 @ ''-'' @ appendInt (Day t) 2"

definition randomizeDate :: "int \<Rightarrow> rng \<Rightarrow> panic + (string \<times> rng)" where
  "randomizeDate year g =
     (case Intn 12 g of
        Inl p \<Rightarrow> Inl p
      | Inr (r, g1) \<Rightarrow>
          (let randMonth = r + 1;
               monthMaxDay = Day (date year randMonth 0)
           in case Intn monthMaxDay g1 of
                Inl p \<Rightarrow> Inl p
              | Inr (r', g2) \<Rightarrow>
                  (let randDay = r' + 1;
                       fullDateTime = Format (date year randMonth randDay)
                   in Inr (fullDateTime, g2))))"

text \<open>
  Reading a date back, as the round trip of the specification does: ten bytes
  \<^verbatim>\<open>YYYY-MM-DD\<close> of digits and dashes that name a day of the calendar.
\<close>

definition digitsValue :: "string \<Rightarrow> nat" where
  "digitsValue s = foldl (\<lambda>a c. 10 * a + (of_char c - 48)) 0 s"

definition parseISODate :: "string \<Rightarrow> (int \<times> int \<times> int) option" where
  "parseISODate s =
     (if length s = 10 \<and> s ! 4 = CHR ''-'' \<and> s ! 7 = CHR ''-'' \<and>
         list_all is_digit (take 4 s) \<and> list_all is_digit (take 2 (drop 5 s)) \<and>
         list_all is_digit (drop 8 s)
      then (let y = int (digitsValue (take 4 s));
                m = int (digitsValue (take 2 (drop 5 s)));
                d = int (digitsValue (drop 8 s))
            in if 1 \<le> m \<and> m \<le> 12 \<and> 1 \<le> d \<and> d \<le> daysIn y m then Some (y, m, d) else None)
      else None)"

section \<open>Sequences of invocations\<close>

text \<open>
  The row driver calls one processor after the other on the same package-level state.
  \<open>OtherProcessor out err g\<close> stands for an invocation of any of the remaining entries of
  \<^verbatim>\<open>ProcessorCatalog\<close> (the fake-value generators, the date, digit, scrub and country
  code processors): none of them mentions one of the three maps; it returns some
  \<open>out\<close> and \<open>err\<close> and may leave the random source in any state \<open>g\<close>. A panic ends the run.
\<close>

datatype call =
    AlphaNumericScrambler ColumnMapper string
  | IBANScrambler ColumnMapper string
  | RandomUUID ColumnMapper string
  | RandomBoolean ColumnMapper string
  | Identity ColumnMapper string
  | EmptyJson ColumnMapper string
  | OtherProcessor string "error option" rng

fun invoke :: "(string \<Rightarrow> error + UUID) \<Rightarrow> (UUID \<Rightarrow> string) \<Rightarrow> call \<Rightarrow> state \<Rightarrow>
    panic + (string \<times> error option \<times> state)" where
  "invoke Parse String (AlphaNumericScrambler cmap input) st = ProcessorAlphaNumericScrambler cmap input st"
| "invoke Parse String (IBANScrambler cmap input) st = ProcessorIBANScrambler cmap input st"
| "invoke Parse String (RandomUUID cmap input) st = ProcessorRandomUUID Parse String cmap input st"
| "invoke Parse String (RandomBoolean cmap input) st = ProcessorRandomBoolean cmap input st"
| "invoke Parse String (Identity cmap input) st = ProcessorIdentity cmap input st"
| "invoke Parse String (EmptyJson cmap input) st = ProcessorEmptyJson cmap input st"
| "invoke Parse String (OtherProcessor out err g) st = Inr (out, err, st\<lparr>rand := g\<rparr>)"

fun run :: "(string \<Rightarrow> error + UUID) \<Rightarrow> (UUID \<Rightarrow> string) \<Rightarrow> state \<Rightarrow> call list \<Rightarrow> panic + state" where
  "run Parse String st [] = Inr st"
| "run Parse String st (c # cs) =
     (case invoke Parse String c st of
        Inl p \<Rightarrow> Inl p
      | Inr (out, err, st') \<Rightarrow> run Parse String st' cs)"

text \<open>
  The two-level map read as one map from a scope key and a raw value to the stored
  value: \<open>None\<close> when the scope key or the raw value is missing.
\<close>

definition alpha :: "state \<Rightarrow> string \<Rightarrow> string \<Rightarrow> string option" where
  "alpha st k raw =
     (case Mapping.lookup (AlphaNumericMap st) k of
        None \<Rightarrow> None
      | Some m \<Rightarrow> Mapping.lookup m raw)"

text \<open>
  An invariant, used in the proofs only. It holds of the maps in every state that the
  processors reach from the empty maps:
  a stored scramble has the length of its raw value, and an IBAN entry has a key of at
  least two bytes, keeps them, and continues with a scramble of the rest of the key.
\<close>

definition maps_ok :: "state \<Rightarrow> bool" where
  "maps_ok st \<longleftrightarrow>
     (\<forall>k raw v. alpha st k raw = Some v \<longrightarrow> length v = length raw) \<and>
     (\<forall>k v. Mapping.lookup (IBANMap st) k = Some v \<longrightarrow>
        2 \<le> length k \<and> take 2 v = take 2 k \<and>
        (\<exists>g g'. scrambleString (drop 2 k) g = Inr (drop 2 v, g')))"

text \<open>What the scrambler may put in the place of the byte \<open>c\<close>.\<close>

definition class_ok :: "char \<Rightarrow> char \<Rightarrow> bool" where
  "class_ok c d = (if is_lower c then is_lower d else if is_upper c then is_upper d
     else if is_digit c then is_digit d else d = c)"

section \<open>Properties of the scrambler\<close>

lemma Intn_pos: "0 < n \<Longrightarrow> Intn n g = Inr (int (g 0) mod n, advance g)"
  by (simp add: Intn_def)

lemma all_lower: "list_all is_lower lowercaseSet"
  by (simp add: lowercaseSet_def is_lower_def less_eq_char_def)
lemma all_upper: "list_all is_upper uppercaseSet"
  by (simp add: uppercaseSet_def is_upper_def less_eq_char_def)
lemma all_digit: "list_all is_digit numericSet"
  by (simp add: numericSet_def is_digit_def less_eq_char_def)

lemma pick_ok:
  assumes "0 < n" "n \<le> int (length s)"
  shows "\<exists>c. pick s n g = Inr ([c], advance g) \<and> c \<in> set s"
proof -
  let ?i = "int (g 0) mod n"
  have i: "0 \<le> ?i" "?i < n" using assms by simp_all
  then have lt: "?i < int (length s)" using assms by linarith
  with i have "nat ?i < length s" by linarith
  moreover have "index s ?i = Inr (s ! nat ?i)" using i lt by (simp add: index_def)
  ultimately show ?thesis using assms by (simp add: pick_def Intn_def)
qed

lemma randomLowercase_ok: "\<exists>c. randomLowercase g = Inr ([c], advance g) \<and> is_lower c"
  using pick_ok [of lowercaseSetLen lowercaseSet g] all_lower
  by (auto simp: randomLowercase_def lowercaseSetLen_def list_all_iff lowercaseSet_def)

lemma randomUppercase_ok: "\<exists>c. randomUppercase g = Inr ([c], advance g) \<and> is_upper c"
  using pick_ok [of uppercaseSetLen uppercaseSet g] all_upper
  by (auto simp: randomUppercase_def uppercaseSetLen_def list_all_iff uppercaseSet_def)

lemma randomNumeric_ok: "\<exists>c. randomNumeric g = Inr ([c], advance g) \<and> is_digit c"
  using pick_ok [of numericSetLen numericSet g] all_digit
  by (auto simp: randomNumeric_def numericSetLen_def list_all_iff numericSet_def)

lemma scrambleByte_ok: "\<exists>d g'. scrambleByte c g = Inr ([d], g') \<and> class_ok c d"
  using randomLowercase_ok [of g] randomUppercase_ok [of g] randomNumeric_ok [of g]
  by (auto simp: scrambleByte_def class_ok_def)

lemma scrambleString_ok:
  "\<exists>out g'. scrambleString s g = Inr (out, g') \<and> list_all2 class_ok s out"
proof (induction s arbitrary: g)
  case Nil
  show ?case by simp
next
  case (Cons c cs)
  obtain d g1 where d: "scrambleByte c g = Inr ([d], g1)" "class_ok c d"
    using scrambleByte_ok by blast
  obtain out g2 where o: "scrambleString cs g1 = Inr (out, g2)" "list_all2 class_ok cs out"
    using Cons.IH by blast
  show ?case using d o by simp
qed

section \<open>Length and class preservation\<close>

lemma class_ok_cases:
  assumes "class_ok c d"
  shows "is_lower c \<longrightarrow> is_lower d" "is_upper c \<longrightarrow> is_upper d" "is_digit c \<longrightarrow> is_digit d"
    "\<not> is_lower c \<and> \<not> is_upper c \<and> \<not> is_digit c \<longrightarrow> d = c"
proof -
  have dis: "is_lower c \<Longrightarrow> \<not> is_upper c" "is_lower c \<Longrightarrow> \<not> is_digit c"
    "is_upper c \<Longrightarrow> \<not> is_digit c"
    by (auto simp: is_lower_def is_upper_def is_digit_def less_eq_char_def)
  show "is_lower c \<longrightarrow> is_lower d" using assms by (simp add: class_ok_def)
  show "is_upper c \<longrightarrow> is_upper d" using assms dis(1) by (cases "is_lower c") (simp_all add: class_ok_def)
  show "is_digit c \<longrightarrow> is_digit d" using assms dis(2,3)
    by (cases "is_lower c"; cases "is_upper c") (simp_all add: class_ok_def)
  show "\<not> is_lower c \<and> \<not> is_upper c \<and> \<not> is_digit c \<longrightarrow> d = c"
    using assms by (simp add: class_ok_def)
qed

text \<open>
  Claim C3. For every input and every state of the random source, \<open>scrambleString\<close>
  returns, and its result has the length of the input; a position that holds a lowercase
  letter holds a lowercase letter, an uppercase one an uppercase letter, a digit a digit,
  and every other byte is the byte of the input.
\<close>

theorem scrambleString_length_classes:
  "\<exists>out g'. scrambleString s g = Inr (out, g') \<and> length out = length s \<and>
     (\<forall>i<length s.
        (is_lower (s ! i) \<longrightarrow> is_lower (out ! i)) \<and>
        (is_upper (s ! i) \<longrightarrow> is_upper (out ! i)) \<and>
        (is_digit (s ! i) \<longrightarrow> is_digit (out ! i)) \<and>
        (\<not> is_lower (s ! i) \<and> \<not> is_upper (s ! i) \<and> \<not> is_digit (s ! i) \<longrightarrow> out ! i = s ! i))"
proof -
  obtain out g' where o: "scrambleString s g = Inr (out, g')" "list_all2 class_ok s out"
    using scrambleString_ok by blast
  have len: "length out = length s" using o(2) by (simp add: list_all2_lengthD)
  have "class_ok (s ! i) (out ! i)" if "i < length s" for i
    using o(2) that by (simp add: list_all2_nthD)
  then show ?thesis using o(1) len class_ok_cases by blast
qed

text \<open>The same on five bytes, the last one outside ASCII.\<close>

theorem scrambleString_length_classes_witness:
  "\<exists>out g'. scrambleString [CHR ''a'', CHR ''B'', CHR ''3'', CHR ''-'', CHR 0xC3] (\<lambda>i. 7 + i) = Inr (out, g') \<and>
     length out = 5 \<and> is_lower (out ! 0) \<and> is_upper (out ! 1) \<and> is_digit (out ! 2) \<and>
     out ! 3 = CHR ''-'' \<and> out ! 4 = CHR 0xC3"
  using scrambleString_length_classes [of "[CHR ''a'', CHR ''B'', CHR ''3'', CHR ''-'', CHR 0xC3]" "\<lambda>i. 7 + i"]
  by (auto simp: All_less_Suc numeral_eq_Suc is_lower_def is_upper_def is_digit_def less_eq_char_def)

section \<open>The alphanumeric processor, call by call\<close>

lemma is_empty_lookup: "Mapping.is_empty m \<Longrightarrow> Mapping.lookup m x = None"
  by (simp add: Mapping.is_empty_def keys_dom_lookup domIff)

lemma scrambleString_total: "\<exists>out g'. scrambleString s g = Inr (out, g') \<and> length out = length s"
  using scrambleString_ok [of s g] by (auto dest: list_all2_lengthD)

lemma nested_alpha: "nested (AlphaNumericMap st) k raw = (case alpha st k raw of None \<Rightarrow> [] | Some v \<Rightarrow> v)"
  by (simp add: nested_def alpha_def split: option.splits)

lemma PAS_unlinked:
  assumes "ParentSchema cmap = [] \<or> ParentTable cmap = [] \<or> ParentColumn cmap = []"
  shows "\<exists>out g'. scrambleString input (rand st) = Inr (out, g') \<and>
           ProcessorAlphaNumericScrambler cmap input st = Inr (out, None, st\<lparr>rand := g'\<rparr>)"
proof -
  obtain out g' where "scrambleString input (rand st) = Inr (out, g')"
    using scrambleString_total by blast
  then show ?thesis using assms by (auto simp: ProcessorAlphaNumericScrambler_def)
qed

lemma PAS_hit:
  assumes ne: "ParentSchema cmap \<noteq> []" "ParentTable cmap \<noteq> []" "ParentColumn cmap \<noteq> []"
    and hit: "alpha st (parentKey cmap) input = Some v" "v \<noteq> []"
  shows "ProcessorAlphaNumericScrambler cmap input st = Inr (v, None, st)"
proof -
  obtain m where m: "Mapping.lookup (AlphaNumericMap st) (parentKey cmap) = Some m"
    "Mapping.lookup m input = Some v"
    using hit(1) by (auto simp: alpha_def split: option.splits)
  have "\<not> Mapping.is_empty m" using m(2) is_empty_lookup by fastforce
  then have l: "\<not> lenLessThan1 (Mapping.lookup (AlphaNumericMap st) (parentKey cmap))"
    using m(1) by (simp add: lenLessThan1_def)
  have n: "nested (AlphaNumericMap st) (parentKey cmap) input = v"
    using m by (simp add: nested_def)
  show ?thesis using ne l n hit(2)
    by (simp add: ProcessorAlphaNumericScrambler_def Let_def)
qed

lemma PAS_miss:
  assumes ne: "ParentSchema cmap \<noteq> []" "ParentTable cmap \<noteq> []" "ParentColumn cmap \<noteq> []"
    and miss: "alpha st (parentKey cmap) input = None \<or> alpha st (parentKey cmap) input = Some []"
  shows "\<exists>out st'. ProcessorAlphaNumericScrambler cmap input st = Inr (out, None, st') \<and>
           scrambleString input (rand st) = Inr (out, rand st') \<and>
           (\<forall>k raw. alpha st' k raw = (if k = parentKey cmap \<and> raw = input then Some out else alpha st k raw)) \<and>
           UUIDMap st' = UUIDMap st \<and> IBANMap st' = IBANMap st \<and> rander st' = rander st"
proof -
  let ?key = "parentKey cmap"
  define st1 where "st1 = (if lenLessThan1 (Mapping.lookup (AlphaNumericMap st) ?key)
              then st\<lparr>AlphaNumericMap := Mapping.update ?key Mapping.empty (AlphaNumericMap st)\<rparr>
              else st)"
  obtain out g' where s: "scrambleString input (rand st) = Inr (out, g')"
    using scrambleString_total by blast
  have a1: "alpha st1 k raw = alpha st k raw" for k raw
    by (auto simp: st1_def alpha_def lenLessThan1_def Mapping.lookup_update' is_empty_lookup split: option.splits)
  have r1: "rand st1 = rand st" "UUIDMap st1 = UUIDMap st" "IBANMap st1 = IBANMap st" "rander st1 = rander st"
    by (simp_all add: st1_def)
  have "\<exists>inner. Mapping.lookup (AlphaNumericMap st1) ?key = Some inner"
    by (cases "Mapping.lookup (AlphaNumericMap st) ?key") (simp_all add: st1_def lenLessThan1_def)
  then obtain inner where inner: "Mapping.lookup (AlphaNumericMap st1) ?key = Some inner" ..
  have n1: "nested (AlphaNumericMap st1) ?key input = []"
    using miss a1 [of ?key input] by (auto simp: nested_alpha)
  define st' where "st' = st1\<lparr>AlphaNumericMap := Mapping.update ?key (Mapping.update input out inner) (AlphaNumericMap st1), rand := g'\<rparr>"
  have res: "ProcessorAlphaNumericScrambler cmap input st = Inr (out, None, st')"
    unfolding ProcessorAlphaNumericScrambler_def Let_def st1_def [symmetric]
    using ne n1 s inner r1(1) by (simp add: st'_def)
  have a': "alpha st' k raw = (if k = ?key \<and> raw = input then Some out else alpha st k raw)" for k raw
  proof -
    have "alpha st' k raw = (if k = ?key \<and> raw = input then Some out else alpha st1 k raw)"
      using inner by (auto simp: st'_def alpha_def Mapping.lookup_update')
    then show ?thesis using a1 by simp
  qed
  have "UUIDMap st' = UUIDMap st" "IBANMap st' = IBANMap st" "rander st' = rander st" "rand st' = g'"
    using r1 by (simp_all add: st'_def)
  then show ?thesis using res a' s by metis
qed

lemma PAS_linked:
  assumes ne: "ParentSchema cmap \<noteq> []" "ParentTable cmap \<noteq> []" "ParentColumn cmap \<noteq> []"
  shows "\<exists>out st'. ProcessorAlphaNumericScrambler cmap input st = Inr (out, None, st') \<and>
           (\<forall>k raw. alpha st' k raw = (if k = parentKey cmap \<and> raw = input then Some out else alpha st k raw)) \<and>
           (\<forall>v. alpha st (parentKey cmap) input = Some v \<and> v \<noteq> [] \<longrightarrow> out = v) \<and>
           (out = [] \<longrightarrow> input = []) \<and>
           UUIDMap st' = UUIDMap st \<and> IBANMap st' = IBANMap st \<and> rander st' = rander st"
proof (cases "alpha st (parentKey cmap) input = None \<or> alpha st (parentKey cmap) input = Some []")
  case True
  obtain out st' where r: "ProcessorAlphaNumericScrambler cmap input st = Inr (out, None, st')"
    "scrambleString input (rand st) = Inr (out, rand st')"
    "\<forall>k raw. alpha st' k raw = (if k = parentKey cmap \<and> raw = input then Some out else alpha st k raw)"
    "UUIDMap st' = UUIDMap st" "IBANMap st' = IBANMap st" "rander st' = rander st"
    using PAS_miss [OF ne True] by blast
  have "length out = length input"
    using r(2) scrambleString_total [of input "rand st"] by auto
  then have "out = [] \<longrightarrow> input = []" by auto
  then show ?thesis using r True by auto
next
  case False
  then obtain v where v: "alpha st (parentKey cmap) input = Some v" "v \<noteq> []" by auto
  have "ProcessorAlphaNumericScrambler cmap input st = Inr (v, None, st)"
    using PAS_hit [OF ne v] .
  then show ?thesis using v by auto
qed

text \<open>
  Claim C10. When one of the parent schema, table and column is empty, also when the
  others are not, the processor returns the scramble and leaves \<open>AlphaNumericMap\<close> as
  it was; when all three are non-empty, the map holds the output under the scope key and
  the input after the call.
\<close>

theorem AlphaNumericScrambler_memoizes_iff_linked:
  "(ParentSchema cmap = [] \<or> ParentTable cmap = [] \<or> ParentColumn cmap = [] \<longrightarrow>
      (\<exists>out st'. ProcessorAlphaNumericScrambler cmap input st = Inr (out, None, st') \<and>
         AlphaNumericMap st' = AlphaNumericMap st)) \<and>
   (ParentSchema cmap \<noteq> [] \<and> ParentTable cmap \<noteq> [] \<and> ParentColumn cmap \<noteq> [] \<longrightarrow>
      (\<exists>out st' inner. ProcessorAlphaNumericScrambler cmap input st = Inr (out, None, st') \<and>
         Mapping.lookup (AlphaNumericMap st') (parentKey cmap) = Some inner \<and>
         Mapping.lookup inner input = Some out))"
proof (intro conjI impI)
  assume "ParentSchema cmap = [] \<or> ParentTable cmap = [] \<or> ParentColumn cmap = []"
  then obtain out g' where
    "ProcessorAlphaNumericScrambler cmap input st = Inr (out, None, st\<lparr>rand := g'\<rparr>)"
    using PAS_unlinked by blast
  then show "\<exists>out st'. ProcessorAlphaNumericScrambler cmap input st = Inr (out, None, st') \<and>
         AlphaNumericMap st' = AlphaNumericMap st"
    by simp
next
  assume "ParentSchema cmap \<noteq> [] \<and> ParentTable cmap \<noteq> [] \<and> ParentColumn cmap \<noteq> []"
  then obtain out st' where r: "ProcessorAlphaNumericScrambler cmap input st = Inr (out, None, st')"
    "alpha st' (parentKey cmap) input = Some out"
    using PAS_linked [of cmap input st] by auto
  from r(2) obtain inner where "Mapping.lookup (AlphaNumericMap st') (parentKey cmap) = Some inner"
    "Mapping.lookup inner input = Some out"
    by (auto simp: alpha_def split: option.splits)
  with r(1) show "\<exists>out st' inner. ProcessorAlphaNumericScrambler cmap input st = Inr (out, None, st') \<and>
         Mapping.lookup (AlphaNumericMap st') (parentKey cmap) = Some inner \<and>
         Mapping.lookup inner input = Some out"
    by blast
qed

text \<open>One column with an empty parent table and one with all three parents.\<close>

theorem AlphaNumericScrambler_memoizes_iff_linked_witness:
  "(\<exists>out st'. ProcessorAlphaNumericScrambler \<lparr>ParentSchema = ''public'', ParentTable = [], ParentColumn = ''id''\<rparr>
       ''ab-1'' (init (\<lambda>i. i) (\<lambda>_. Inl randReadError)) = Inr (out, None, st') \<and>
       AlphaNumericMap st' = Mapping.empty) \<and>
   (\<exists>out st' inner. ProcessorAlphaNumericScrambler \<lparr>ParentSchema = ''public'', ParentTable = ''users'', ParentColumn = ''id''\<rparr>
       ''ab-1'' (init (\<lambda>i. i) (\<lambda>_. Inl randReadError)) = Inr (out, None, st') \<and>
       Mapping.lookup (AlphaNumericMap st') ''public.users.id'' = Some inner \<and>
       Mapping.lookup inner ''ab-1'' = Some out)"
  using AlphaNumericScrambler_memoizes_iff_linked [of "\<lparr>ParentSchema = ''public'', ParentTable = [], ParentColumn = ''id''\<rparr>"
      "''ab-1''" "init (\<lambda>i. i) (\<lambda>_. Inl randReadError)"]
    AlphaNumericScrambler_memoizes_iff_linked [of "\<lparr>ParentSchema = ''public'', ParentTable = ''users'', ParentColumn = ''id''\<rparr>"
      "''ab-1''" "init (\<lambda>i. i) (\<lambda>_. Inl randReadError)"]
  by (simp add: parentKey_def init_def)

section \<open>Parse failures, short IBANs and scope keys\<close>

text \<open>
  Claim C1 as stated fails: on an input that \<^verbatim>\<open>uuid.Parse\<close> rejects, the processor
  returns the empty string together with the parser's error, not with \<^verbatim>\<open>nil\<close>.
\<close>

theorem RandomUUID_parse_failure_counterexample:
  "uuid_Parse ''not-a-uuid'' = Inl (invalidLengthError 10) \<and>
   ProcessorRandomUUID uuid_Parse uuid_String \<lparr>ParentSchema = [], ParentTable = [], ParentColumn = []\<rparr>
     ''not-a-uuid'' (init (\<lambda>i. i) (\<lambda>_. Inl randReadError)) =
   Inr ([], Some (invalidLengthError 10), init (\<lambda>i. i) (\<lambda>_. Inl randReadError))"
  by (simp add: ProcessorRandomUUID_def uuid_Parse_def)

text \<open>
  Claim C1, amended. For every input that does not parse as a UUID, the processor
  returns the empty string together with the error of the parser, and leaves the state
  as it was.
\<close>

theorem RandomUUID_parse_failure:
  "Parse input = Inl err \<Longrightarrow>
   ProcessorRandomUUID Parse String cmap input st = Inr ([], Some err, st)"
  by (simp add: ProcessorRandomUUID_def)

text \<open>An input of the right length with a byte that is no hexadecimal digit.\<close>

theorem RandomUUID_parse_failure_witness:
  "uuid_Parse ''123e4567-e89b-12d3-a456-42661417400g'' = Inl invalidUUIDFormat \<and>
   ProcessorRandomUUID uuid_Parse uuid_String \<lparr>ParentSchema = ''public'', ParentTable = ''users'', ParentColumn = ''id''\<rparr>
     ''123e4567-e89b-12d3-a456-42661417400g'' (init (\<lambda>i. i) (\<lambda>_. Inr (replicate 16 7))) =
   Inr ([], Some invalidUUIDFormat, init (\<lambda>i. i) (\<lambda>_. Inr (replicate 16 7)))"
proof -
  have p: "uuid_Parse ''123e4567-e89b-12d3-a456-42661417400g'' = Inl invalidUUIDFormat"
    by code_simp
  show ?thesis
    using p RandomUUID_parse_failure [of uuid_Parse "''123e4567-e89b-12d3-a456-42661417400g''"
        invalidUUIDFormat uuid_String
        "\<lparr>ParentSchema = ''public'', ParentTable = ''users'', ParentColumn = ''id''\<rparr>"
        "init (\<lambda>i. i) (\<lambda>_. Inr (replicate 16 7))"]
    by simp
qed

text \<open>
  Claim C6 asks that an input of fewer than two bytes be handled. The code slices
  \<^verbatim>\<open>input[:2]\<close> without a check: on the empty string and on a string of one byte that
  are not in \<open>IBANMap\<close> the processor panics.
\<close>

theorem IBANScrambler_short_input_panics:
  "ProcessorIBANScrambler cmap [] (init g r) = Inl SliceBoundsOutOfRange \<and>
   ProcessorIBANScrambler cmap ''D'' (init g r) = Inl SliceBoundsOutOfRange"
  by (simp add: ProcessorIBANScrambler_def init_def sliceTo_def)

text \<open>
  Claim C7 as stated fails: the key joins the three names with dots, so two distinct
  triples of non-empty names that contain dots can have the same key, and the second
  column then reads back the value stored by the first.
\<close>

theorem parentKey_collision_counterexample:
  "(''a.b'', ''c'', ''d'') \<noteq> (''a'', ''b.c'', ''d'') \<and>
   parentKey \<lparr>ParentSchema = ''a.b'', ParentTable = ''c'', ParentColumn = ''d''\<rparr> =
   parentKey \<lparr>ParentSchema = ''a'', ParentTable = ''b.c'', ParentColumn = ''d''\<rparr> \<and>
   (case ProcessorAlphaNumericScrambler \<lparr>ParentSchema = ''a.b'', ParentTable = ''c'', ParentColumn = ''d''\<rparr>
           ''x1'' (init (\<lambda>_. 3) (\<lambda>_. Inl randReadError)) of
      Inl p \<Rightarrow> False
    | Inr (out1, err1, st1) \<Rightarrow>
        out1 = ''d3'' \<and>
        ProcessorAlphaNumericScrambler \<lparr>ParentSchema = ''a'', ParentTable = ''b.c'', ParentColumn = ''d''\<rparr>
           ''x1'' (st1\<lparr>rand := (\<lambda>_. 9)\<rparr>) = Inr (''d3'', None, st1\<lparr>rand := (\<lambda>_. 9)\<rparr>))"
  by (simp add: parentKey_def ProcessorAlphaNumericScrambler_def init_def lenLessThan1_def nested_def
      scrambleByte_def is_lower_def is_upper_def is_digit_def less_eq_char_def randomLowercase_def
      randomNumeric_def pick_def Intn_def index_def lowercaseSet_def numericSet_def
      lowercaseSetLen_def numericSetLen_def advance_def Let_def)

lemma dot_split:
  "CHR ''.'' \<notin> set a \<Longrightarrow> CHR ''.'' \<notin> set c \<Longrightarrow> a @ CHR ''.'' # b = c @ CHR ''.'' # d \<Longrightarrow> a = c \<and> b = d"
proof (induction a arbitrary: c)
  case Nil
  then show ?case by (cases c) auto
next
  case (Cons x a)
  then show ?case by (cases c) auto
qed

lemma parentKey_inj:
  assumes "CHR ''.'' \<notin> set (ParentSchema c1)" "CHR ''.'' \<notin> set (ParentSchema c2)"
    "CHR ''.'' \<notin> set (ParentTable c1)" "CHR ''.'' \<notin> set (ParentTable c2)"
    "parentKey c1 = parentKey c2"
  shows "ParentSchema c1 = ParentSchema c2 \<and> ParentTable c1 = ParentTable c2 \<and> ParentColumn c1 = ParentColumn c2"
proof -
  have 1: "ParentSchema c1 = ParentSchema c2 \<and>
        ParentTable c1 @ CHR ''.'' # ParentColumn c1 = ParentTable c2 @ CHR ''.'' # ParentColumn c2"
    using assms(5) dot_split [OF assms(1,2)] by (simp add: parentKey_def)
  then show ?thesis using dot_split [OF assms(3,4)] by blast
qed

text \<open>
  Claim C7, amended. For two column metadata whose parent triples are distinct and
  all non-empty, and whose parent schema and parent table names contain no dot, the
  scope keys are distinct; an invocation under the first triple stores its output under
  the first key and leaves every entry under the second key as it was.
\<close>

theorem parentKey_partitions_scopes:
  assumes "(ParentSchema c1, ParentTable c1, ParentColumn c1) \<noteq> (ParentSchema c2, ParentTable c2, ParentColumn c2)"
    and "ParentSchema c1 \<noteq> []" "ParentTable c1 \<noteq> []" "ParentColumn c1 \<noteq> []"
    and "ParentSchema c2 \<noteq> []" "ParentTable c2 \<noteq> []" "ParentColumn c2 \<noteq> []"
    and "CHR ''.'' \<notin> set (ParentSchema c1)" "CHR ''.'' \<notin> set (ParentTable c1)"
    and "CHR ''.'' \<notin> set (ParentSchema c2)" "CHR ''.'' \<notin> set (ParentTable c2)"
  shows "parentKey c1 \<noteq> parentKey c2 \<and>
     (\<exists>out st'. ProcessorAlphaNumericScrambler c1 input st = Inr (out, None, st') \<and>
        alpha st' (parentKey c1) input = Some out \<and>
        (\<forall>raw. alpha st' (parentKey c2) raw = alpha st (parentKey c2) raw))"
proof -
  have k: "parentKey c1 \<noteq> parentKey c2"
    using parentKey_inj [of c1 c2] assms(1,8-11) by auto
  obtain out st' where r: "ProcessorAlphaNumericScrambler c1 input st = Inr (out, None, st')"
    "\<forall>k raw. alpha st' k raw = (if k = parentKey c1 \<and> raw = input then Some out else alpha st k raw)"
    using PAS_linked [OF assms(2-4), of input st] by blast
  have "alpha st' (parentKey c1) input = Some out" using r(2) by simp
  moreover have "\<forall>raw. alpha st' (parentKey c2) raw = alpha st (parentKey c2) raw"
    using r(2) k by simp
  ultimately show ?thesis using r(1) k by blast
qed

text \<open>Two columns of the schema \<open>public\<close>.\<close>

theorem parentKey_partitions_scopes_witness:
  "(''public'', ''users'', ''id'') \<noteq> (''public'', ''orders'', ''user_id'') \<and>
   CHR ''.'' \<notin> set ''public'' \<and> CHR ''.'' \<notin> set ''users'' \<and> CHR ''.'' \<notin> set ''orders'' \<and>
   parentKey \<lparr>ParentSchema = ''public'', ParentTable = ''users'', ParentColumn = ''id''\<rparr> \<noteq>
   parentKey \<lparr>ParentSchema = ''public'', ParentTable = ''orders'', ParentColumn = ''user_id''\<rparr> \<and>
   (\<exists>out st'. ProcessorAlphaNumericScrambler \<lparr>ParentSchema = ''public'', ParentTable = ''users'', ParentColumn = ''id''\<rparr>
        ''x1'' (init (\<lambda>_. 3) (\<lambda>_. Inl randReadError)) = Inr (out, None, st') \<and>
      alpha st' ''public.users.id'' ''x1'' = Some out \<and>
      alpha st' ''public.orders.user_id'' ''x1'' = None)"
  using parentKey_partitions_scopes [of
      "\<lparr>ParentSchema = ''public'', ParentTable = ''users'', ParentColumn = ''id''\<rparr>"
      "\<lparr>ParentSchema = ''public'', ParentTable = ''orders'', ParentColumn = ''user_id''\<rparr>"
      "''x1''" "init (\<lambda>_. 3) (\<lambda>_. Inl randReadError)"]
  by (auto simp: parentKey_def alpha_def init_def)

section \<open>What an invocation leaves in the maps\<close>

lemma PAS_linked_miss_len:
  assumes ne: "ParentSchema cmap \<noteq> []" "ParentTable cmap \<noteq> []" "ParentColumn cmap \<noteq> []"
    and miss: "alpha st (parentKey cmap) input = None \<or> alpha st (parentKey cmap) input = Some []"
    and res: "ProcessorAlphaNumericScrambler cmap input st = Inr (out, err, st')"
  shows "length out = length input"
proof -
  obtain out0 st0 where r: "ProcessorAlphaNumericScrambler cmap input st = Inr (out0, None, st0)"
    "scrambleString input (rand st) = Inr (out0, rand st0)"
    using PAS_miss [OF ne miss] by blast
  have "length out0 = length input"
    using r(2) scrambleString_total [of input "rand st"] by auto
  then show ?thesis using r(1) res by simp
qed

lemma PIS_hit:
  "Mapping.lookup (IBANMap st) input = Some v \<Longrightarrow> ProcessorIBANScrambler cmap input st = Inr (v, None, st)"
  by (simp add: ProcessorIBANScrambler_def)

lemma PIS_short:
  "Mapping.lookup (IBANMap st) input = None \<Longrightarrow> length input < 2 \<Longrightarrow>
   ProcessorIBANScrambler cmap input st = Inl SliceBoundsOutOfRange"
  by (simp add: ProcessorIBANScrambler_def sliceTo_def)

lemma PIS_miss:
  assumes "Mapping.lookup (IBANMap st) input = None" "2 \<le> length input"
  shows "\<exists>scr g'. scrambleString (drop 2 input) (rand st) = Inr (scr, g') \<and>
           ProcessorIBANScrambler cmap input st =
             Inr (take 2 input @ scr, None,
                  st\<lparr>IBANMap := Mapping.update input (take 2 input @ scr) (IBANMap st), rand := g'\<rparr>)"
proof -
  obtain scr g' where "scrambleString (drop 2 input) (rand st) = Inr (scr, g')"
    using scrambleString_total by blast
  then show ?thesis using assms
    by (simp add: ProcessorIBANScrambler_def sliceTo_def sliceFrom_def Let_def)
qed

lemma PIS_result:
  assumes "ProcessorIBANScrambler cmap input st = Inr (out, err, st')"
  shows "err = None \<and> Mapping.lookup (IBANMap st') input = Some out \<and>
         (\<forall>k. k \<noteq> input \<longrightarrow> Mapping.lookup (IBANMap st') k = Mapping.lookup (IBANMap st) k) \<and>
         (\<forall>v. Mapping.lookup (IBANMap st) input = Some v \<longrightarrow> out = v) \<and>
         (Mapping.lookup (IBANMap st) input = None \<longrightarrow> 2 \<le> length input \<and>
            take 2 out = take 2 input \<and> scrambleString (drop 2 input) (rand st) = Inr (drop 2 out, rand st')) \<and>
         AlphaNumericMap st' = AlphaNumericMap st \<and> UUIDMap st' = UUIDMap st"
proof (cases "Mapping.lookup (IBANMap st) input")
  case (Some v)
  then show ?thesis using assms PIS_hit [OF Some, of cmap] by simp
next
  case None
  have len: "2 \<le> length input"
    using assms PIS_short [OF None, of cmap] by (cases "length input < 2") simp_all
  obtain scr g' where r: "scrambleString (drop 2 input) (rand st) = Inr (scr, g')"
    "ProcessorIBANScrambler cmap input st =
             Inr (take 2 input @ scr, None,
                  st\<lparr>IBANMap := Mapping.update input (take 2 input @ scr) (IBANMap st), rand := g'\<rparr>)"
    using PIS_miss [OF None len] by blast
  have o: "out = take 2 input @ scr" "err = None"
    "st' = st\<lparr>IBANMap := Mapping.update input out (IBANMap st), rand := g'\<rparr>"
    using assms r(2) by auto
  have t: "take 2 out = take 2 input" "drop 2 out = scr" using o(1) len by simp_all
  show ?thesis using None len r(1) t o(2) by (simp add: o(3))
qed

lemma randomizeUUID_result:
  assumes "randomizeUUID String u st = (out, err, st')"
  shows "AlphaNumericMap st' = AlphaNumericMap st \<and> IBANMap st' = IBANMap st \<and> rand st' = rand st \<and>
         (\<forall>k. k \<noteq> u \<longrightarrow> Mapping.lookup (UUIDMap st') k = Mapping.lookup (UUIDMap st) k) \<and>
         (\<forall>v. Mapping.lookup (UUIDMap st) u = Some v \<longrightarrow> Mapping.lookup (UUIDMap st') u = Some v) \<and>
         (err = None \<longrightarrow> (\<exists>w. Mapping.lookup (UUIDMap st') u = Some w \<and> out = String w))"
  using assms
  by (auto simp: randomizeUUID_def NewRandom_def split: option.splits sum.splits prod.splits)

lemma randomizeUUID_hit:
  "Mapping.lookup (UUIDMap st) u = Some w \<Longrightarrow> randomizeUUID String u st = (String w, None, st)"
  by (simp add: randomizeUUID_def)

lemma invoke_frame:
  assumes "invoke P S c st = Inr (out, err, st')"
  shows "(\<forall>k v. Mapping.lookup (IBANMap st) k = Some v \<longrightarrow> Mapping.lookup (IBANMap st') k = Some v) \<and>
         (\<forall>k v. Mapping.lookup (UUIDMap st) k = Some v \<longrightarrow> Mapping.lookup (UUIDMap st') k = Some v) \<and>
         (\<forall>k raw v. alpha st k raw = Some v \<and> (v = [] \<longrightarrow> raw = []) \<longrightarrow> alpha st' k raw = Some v)"
proof (cases c)
  case (AlphaNumericScrambler cmap input)
  then have r: "ProcessorAlphaNumericScrambler cmap input st = Inr (out, err, st')"
    using assms by simp
  show ?thesis
  proof (cases "ParentSchema cmap \<noteq> [] \<and> ParentTable cmap \<noteq> [] \<and> ParentColumn cmap \<noteq> []")
    case True
    then have ne: "ParentSchema cmap \<noteq> []" "ParentTable cmap \<noteq> []" "ParentColumn cmap \<noteq> []"
      by simp_all
    obtain out0 st0 where l: "ProcessorAlphaNumericScrambler cmap input st = Inr (out0, None, st0)"
      "\<forall>k raw. alpha st0 k raw = (if k = parentKey cmap \<and> raw = input then Some out0 else alpha st k raw)"
      "\<forall>v. alpha st (parentKey cmap) input = Some v \<and> v \<noteq> [] \<longrightarrow> out0 = v"
      "UUIDMap st0 = UUIDMap st" "IBANMap st0 = IBANMap st"
      using PAS_linked [OF ne, of input st] by blast
    have e: "out0 = out" "st0 = st'" using l(1) r by simp_all
    have "alpha st' k raw = Some v" if h: "alpha st k raw = Some v" "v = [] \<longrightarrow> raw = []" for k raw v
    proof (cases "k = parentKey cmap \<and> raw = input")
      case False
      then show ?thesis using l(2) e h by auto
    next
      case kr: True
      show ?thesis
      proof (cases "v = []")
        case False
        then have "out0 = v" using l(3) h kr by simp
        then show ?thesis using l(2) e kr by simp
      next
        case True
        then have "input = []" using h kr by simp
        moreover have "length out = length input"
          using PAS_linked_miss_len [OF ne _ r] h(1) kr True by simp
        ultimately show ?thesis using l(2) e kr True by simp
      qed
    qed
    then show ?thesis using l(4,5) e by simp
  next
    case False
    then obtain out0 g' where
      "ProcessorAlphaNumericScrambler cmap input st = Inr (out0, None, st\<lparr>rand := g'\<rparr>)"
      using PAS_unlinked [of cmap input st] by blast
    then have "st' = st\<lparr>rand := g'\<rparr>" using r by simp
    then show ?thesis by (simp add: alpha_def)
  qed
next
  case (IBANScrambler cmap input)
  then have r: "ProcessorIBANScrambler cmap input st = Inr (out, err, st')"
    using assms by simp
  have a: "alpha st' k raw = alpha st k raw" for k raw
    using PIS_result [OF r] by (simp add: alpha_def)
  have "Mapping.lookup (IBANMap st') k = Some v" if "Mapping.lookup (IBANMap st) k = Some v" for k v
    using PIS_result [OF r] that by (cases "k = input") auto
  then show ?thesis using PIS_result [OF r] a by simp
next
  case (RandomUUID cmap input)
  then have r: "ProcessorRandomUUID P S cmap input st = Inr (out, err, st')"
    using assms by simp
  show ?thesis
  proof (cases "P input")
    case (Inl e)
    then have "st' = st" using r by (simp add: ProcessorRandomUUID_def)
    then show ?thesis by simp
  next
    case (Inr u)
    then have ru: "randomizeUUID S u st = (out, err, st')"
      using r by (simp add: ProcessorRandomUUID_def)
    have a: "alpha st' k raw = alpha st k raw" for k raw
      using randomizeUUID_result [OF ru] by (simp add: alpha_def)
    have "Mapping.lookup (UUIDMap st') k = Some v" if "Mapping.lookup (UUIDMap st) k = Some v" for k v
      using randomizeUUID_result [OF ru] that by (cases "k = u") auto
    then show ?thesis using randomizeUUID_result [OF ru] a by simp
  qed
next
  case (RandomBoolean cmap input)
  then have "\<exists>g'. st' = st\<lparr>rand := g'\<rparr>"
    using assms by (auto simp: ProcessorRandomBoolean_def Intn_def)
  then show ?thesis by (auto simp: alpha_def)
next
  case (Identity cmap input)
  then have "st' = st" using assms by (simp add: ProcessorIdentity_def)
  then show ?thesis by simp
next
  case (EmptyJson cmap input)
  then have "st' = st" using assms by (simp add: ProcessorEmptyJson_def)
  then show ?thesis by simp
next
  case (OtherProcessor o' e' g')
  then have "st' = st\<lparr>rand := g'\<rparr>" using assms by simp
  then show ?thesis by (simp add: alpha_def)
qed

lemma run_frame:
  assumes "run P S st cs = Inr st'"
  shows "(\<forall>k v. Mapping.lookup (IBANMap st) k = Some v \<longrightarrow> Mapping.lookup (IBANMap st') k = Some v) \<and>
         (\<forall>k v. Mapping.lookup (UUIDMap st) k = Some v \<longrightarrow> Mapping.lookup (UUIDMap st') k = Some v) \<and>
         (\<forall>k raw v. alpha st k raw = Some v \<and> (v = [] \<longrightarrow> raw = []) \<longrightarrow> alpha st' k raw = Some v)"
  using assms
proof (induction cs arbitrary: st)
  case Nil
  then show ?case by simp
next
  case (Cons c cs)
  then obtain out err st1 where s: "invoke P S c st = Inr (out, err, st1)" "run P S st1 cs = Inr st'"
    by (auto split: sum.splits)
  show ?case using invoke_frame [OF s(1)] Cons.IH [OF s(2)] by blast
qed

lemma run_append:
  "run P S st (xs @ ys) = (case run P S st xs of Inl p \<Rightarrow> Inl p | Inr st1 \<Rightarrow> run P S st1 ys)"
  by (induction xs arbitrary: st) (auto split: sum.splits)

lemma maps_ok_init: "maps_ok (init g r)"
  by (simp add: maps_ok_def init_def alpha_def)

lemma maps_ok_invoke:
  assumes ok: "maps_ok st" and inv: "invoke P S c st = Inr (out, err, st')"
  shows "maps_ok st'"
proof (cases c)
  case (AlphaNumericScrambler cmap input)
  then have r: "ProcessorAlphaNumericScrambler cmap input st = Inr (out, err, st')"
    using inv by simp
  show ?thesis
  proof (cases "ParentSchema cmap \<noteq> [] \<and> ParentTable cmap \<noteq> [] \<and> ParentColumn cmap \<noteq> []")
    case True
    then have ne: "ParentSchema cmap \<noteq> []" "ParentTable cmap \<noteq> []" "ParentColumn cmap \<noteq> []"
      by simp_all
    obtain out0 st0 where l: "ProcessorAlphaNumericScrambler cmap input st = Inr (out0, None, st0)"
      "\<forall>k raw. alpha st0 k raw = (if k = parentKey cmap \<and> raw = input then Some out0 else alpha st k raw)"
      "\<forall>v. alpha st (parentKey cmap) input = Some v \<and> v \<noteq> [] \<longrightarrow> out0 = v"
      "UUIDMap st0 = UUIDMap st" "IBANMap st0 = IBANMap st"
      using PAS_linked [OF ne, of input st] by blast
    have e: "out0 = out" "st0 = st'" using l(1) r by simp_all
    have lo: "length out = length input"
    proof (cases "alpha st (parentKey cmap) input = None \<or> alpha st (parentKey cmap) input = Some []")
      case True
      then show ?thesis using PAS_linked_miss_len [OF ne _ r] by simp
    next
      case False
      then obtain v where v: "alpha st (parentKey cmap) input = Some v" "v \<noteq> []" by auto
      then have "out = v" using l(3) e by simp
      then show ?thesis using ok v(1) by (simp add: maps_ok_def)
    qed
    have "length v = length raw" if "alpha st' k raw = Some v" for k raw v
      using that l(2) e lo ok by (auto simp: maps_ok_def split: if_splits)
    then show ?thesis using ok l(5) e by (simp add: maps_ok_def)
  next
    case False
    then obtain out0 g' where
      "ProcessorAlphaNumericScrambler cmap input st = Inr (out0, None, st\<lparr>rand := g'\<rparr>)"
      using PAS_unlinked [of cmap input st] by blast
    then have "st' = st\<lparr>rand := g'\<rparr>" using r by simp
    then show ?thesis using ok by (simp add: maps_ok_def alpha_def)
  qed
next
  case (IBANScrambler cmap input)
  then have r: "ProcessorIBANScrambler cmap input st = Inr (out, err, st')"
    using inv by simp
  note R = PIS_result [OF r]
  have a: "alpha st' k raw = alpha st k raw" for k raw
    using R by (simp add: alpha_def)
  have "2 \<le> length k \<and> take 2 v = take 2 k \<and> (\<exists>g g'. scrambleString (drop 2 k) g = Inr (drop 2 v, g'))"
    if h: "Mapping.lookup (IBANMap st') k = Some v" for k v
  proof (cases "k = input")
    case False
    then show ?thesis using R h ok by (simp add: maps_ok_def)
  next
    case True
    then have v: "v = out" using R h by simp
    show ?thesis
    proof (cases "Mapping.lookup (IBANMap st) input")
      case None
      then show ?thesis using R True v by blast
    next
      case (Some w)
      then have "out = w" using R by simp
      then show ?thesis using ok Some True v by (simp add: maps_ok_def)
    qed
  qed
  then show ?thesis using ok a by (simp add: maps_ok_def)
next
  case (RandomUUID cmap input)
  then have r: "ProcessorRandomUUID P S cmap input st = Inr (out, err, st')"
    using inv by simp
  have "AlphaNumericMap st' = AlphaNumericMap st \<and> IBANMap st' = IBANMap st"
  proof (cases "P input")
    case (Inl e)
    then show ?thesis using r by (simp add: ProcessorRandomUUID_def)
  next
    case (Inr u)
    then have "randomizeUUID S u st = (out, err, st')"
      using r by (simp add: ProcessorRandomUUID_def)
    then show ?thesis using randomizeUUID_result by blast
  qed
  then show ?thesis using ok by (simp add: maps_ok_def alpha_def)
next
  case (RandomBoolean cmap input)
  then have "\<exists>g'. st' = st\<lparr>rand := g'\<rparr>"
    using inv by (auto simp: ProcessorRandomBoolean_def Intn_def)
  then show ?thesis using ok by (auto simp: maps_ok_def alpha_def)
next
  case (Identity cmap input)
  then have "st' = st" using inv by (simp add: ProcessorIdentity_def)
  then show ?thesis using ok by simp
next
  case (EmptyJson cmap input)
  then have "st' = st" using inv by (simp add: ProcessorEmptyJson_def)
  then show ?thesis using ok by simp
next
  case (OtherProcessor o' e' g')
  then have "st' = st\<lparr>rand := g'\<rparr>" using inv by simp
  then show ?thesis using ok by (simp add: maps_ok_def alpha_def)
qed

lemma maps_ok_run: "maps_ok st \<Longrightarrow> run P S st cs = Inr st' \<Longrightarrow> maps_ok st'"
proof (induction cs arbitrary: st)
  case Nil
  then show ?case by simp
next
  case (Cons c cs)
  then obtain out err st1 where s: "invoke P S c st = Inr (out, err, st1)" "run P S st1 cs = Inr st'"
    by (auto split: sum.splits)
  show ?case using maps_ok_invoke [OF Cons.prems(1) s(1)] Cons.IH s(2) by blast
qed

section \<open>Dates: normalisation, printing and reading back\<close>

lemma daysIn_bounds: "28 \<le> daysIn y m" "daysIn y m \<le> 31"
  by (simp_all add: daysIn_def)

lemma normalizeDay_valid:
  "1 \<le> d \<Longrightarrow> d \<le> daysIn y m \<Longrightarrow> normalizeDay y m d = \<lparr>Year = y, Month = m, Day = d\<rparr>"
  by (subst normalizeDay.simps) simp

lemma normalizeDay_zero:
  "normalizeDay y m 0 =
     (if m = 1 then \<lparr>Year = y - 1, Month = 12, Day = 31\<rparr>
      else \<lparr>Year = y, Month = m - 1, Day = daysIn y (m - 1)\<rparr>)"
proof -
  have a: "normalizeDay (y - 1) 12 (daysIn (y - 1) 12) = \<lparr>Year = y - 1, Month = 12, Day = 31\<rparr>"
    using normalizeDay_valid [of "daysIn (y - 1) 12" "y - 1" 12] by (simp add: daysIn_def)
  have b: "normalizeDay y (m - 1) (daysIn y (m - 1)) = \<lparr>Year = y, Month = m - 1, Day = daysIn y (m - 1)\<rparr>"
    using normalizeDay_valid [of "daysIn y (m - 1)" y "m - 1"] daysIn_bounds [of y "m - 1"] by simp
  show ?thesis
    by (subst normalizeDay.simps) (simp add: a b)
qed

lemma normalizeDay_over:
  assumes "m \<noteq> 12" "daysIn y m < d" "d \<le> 31"
  shows "normalizeDay y m d = \<lparr>Year = y, Month = m + 1, Day = d - daysIn y m\<rparr>"
proof -
  have "1 \<le> d - daysIn y m" using assms by simp
  moreover have "d - daysIn y m \<le> daysIn y (m + 1)"
    using assms daysIn_bounds [of y m] daysIn_bounds [of y "m + 1"] by linarith
  ultimately have "normalizeDay y (m + 1) (d - daysIn y m) = \<lparr>Year = y, Month = m + 1, Day = d - daysIn y m\<rparr>"
    by (rule normalizeDay_valid)
  moreover have "\<not> d < 1" using assms daysIn_bounds [of y m] by linarith
  ultimately show ?thesis using assms by (subst normalizeDay.simps) simp
qed

lemma time_Date_month: "1 \<le> m \<Longrightarrow> m \<le> 12 \<Longrightarrow> time_Date y m d = normalizeDay y m d"
  by (simp add: time_Date_def)

lemma monthMaxDay:
  assumes "1 \<le> m" "m \<le> 12"
  shows "Day (date y m 0) = (if m = 1 then 31 else daysIn y (m - 1))"
  using assms by (simp add: date_def time_Date_month normalizeDay_zero)

lemma date_in_year:
  assumes m: "1 \<le> rm" "rm \<le> 12" and d: "1 \<le> rd" "rd \<le> Day (date y rm 0)"
  shows "\<exists>m d. date y rm rd = \<lparr>Year = y, Month = m, Day = d\<rparr> \<and> 1 \<le> m \<and> m \<le> 12 \<and>
           1 \<le> d \<and> d \<le> daysIn y m"
proof (cases "rd \<le> daysIn y rm")
  case True
  then have "date y rm rd = \<lparr>Year = y, Month = rm, Day = rd\<rparr>"
    using m d(1) by (simp add: date_def time_Date_month normalizeDay_valid)
  then show ?thesis using m d(1) True by blast
next
  case False
  have le: "rd \<le> (if rm = 1 then 31 else daysIn y (rm - 1))"
    using d(2) monthMaxDay [OF m] by simp
  then have rd31: "rd \<le> 31" using daysIn_bounds(2) [of y "rm - 1"] by (auto split: if_splits)
  have n12: "rm \<noteq> 12"
  proof
    assume "rm = 12"
    then show False using False le by (simp add: daysIn_def)
  qed
  have "date y rm rd = \<lparr>Year = y, Month = rm + 1, Day = rd - daysIn y rm\<rparr>"
    using m n12 False rd31 by (simp add: date_def time_Date_month normalizeDay_over)
  moreover have "1 \<le> rd - daysIn y rm" using False by simp
  moreover have "rd - daysIn y rm \<le> daysIn y (rm + 1)"
    using rd31 daysIn_bounds [of y rm] daysIn_bounds [of y "rm + 1"] by linarith
  moreover have "1 \<le> rm + 1" "rm + 1 \<le> 12" using m n12 by simp_all
  ultimately show ?thesis by blast
qed

lemma is_digit_digitChar: "n < 10 \<Longrightarrow> is_digit (digitChar n)"
  by (simp add: is_digit_def digitChar_def less_eq_char_def)

lemma value_digitChar: "n < 10 \<Longrightarrow> of_char (digitChar n) - 48 = n"
  by (simp add: digitChar_def)

lemma digits_all_digit: "list_all is_digit (digits n)"
proof (induction n rule: digits.induct)
  case (1 n)
  show ?case
  proof (cases "n < 10")
    case True
    then show ?thesis by (subst digits.simps) (simp add: is_digit_digitChar)
  next
    case False
    then show ?thesis using 1 by (subst digits.simps) (simp add: is_digit_digitChar)
  qed
qed

lemma digitsValue_append: "digitsValue (s @ [c]) = 10 * digitsValue s + (of_char c - 48)"
  by (simp add: digitsValue_def)

lemma digitsValue_digits: "digitsValue (digits n) = n"
proof (induction n rule: digits.induct)
  case (1 n)
  show ?case
  proof (cases "n < 10")
    case True
    then show ?thesis by (subst digits.simps) (simp add: digitsValue_def value_digitChar)
  next
    case False
    then have "digitsValue (digits (n div 10)) = n div 10" using 1 by simp
    then show ?thesis using False
      by (subst digits.simps) (simp add: digitsValue_append value_digitChar)
  qed
qed

lemma digits_length: "n < 10 ^ k \<Longrightarrow> 0 < k \<Longrightarrow> length (digits n) \<le> k"
proof (induction n arbitrary: k rule: digits.induct)
  case (1 n)
  show ?case
  proof (cases "n < 10")
    case True
    then show ?thesis using "1.prems" by (subst digits.simps) simp
  next
    case False
    obtain j where j: "k = Suc j" using "1.prems"(2) by (cases k) auto
    have "j \<noteq> 0" using False "1.prems"(1) j by (cases j) auto
    moreover have "n div 10 < 10 ^ j" using "1.prems"(1) j by (simp add: less_mult_imp_div_less mult.commute)
    ultimately have "length (digits (n div 10)) \<le> j" using "1.IH" [OF False] by simp
    then show ?thesis using False j by (subst digits.simps) simp
  qed
qed

lemma digitsValue_zeros: "digitsValue (replicate k CHR ''0'' @ s) = digitsValue s"
proof -
  have "foldl (\<lambda>a c. 10 * a + (of_char c - 48)) 0 (replicate k CHR ''0'') = (0::nat)"
    by (induction k) simp_all
  then show ?thesis by (simp add: digitsValue_def)
qed

lemma appendInt_field:
  assumes "0 \<le> x" "nat x < 10 ^ w" "0 < w"
  shows "length (appendInt x w) = w" "list_all is_digit (appendInt x w)"
    "int (digitsValue (appendInt x w)) = x"
proof -
  have l: "length (digits (nat x)) \<le> w" using digits_length assms by simp
  have a: "appendInt x w = replicate (w - length (digits (nat x))) CHR ''0'' @ digits (nat x)"
    using assms(1) by (simp add: appendInt_def)
  show "length (appendInt x w) = w" using l by (simp add: a)
  have "is_digit CHR ''0''" by (simp add: is_digit_def)
  then show "list_all is_digit (appendInt x w)"
    using digits_all_digit [of "nat x"] by (auto simp: a list_all_iff)
  show "int (digitsValue (appendInt x w)) = x"
    using assms(1) by (simp add: a digitsValue_zeros digitsValue_digits)
qed

lemma parse_Format:
  assumes "0 \<le> y" "y \<le> 9999" "1 \<le> m" "m \<le> 12" "1 \<le> d" "d \<le> daysIn y m"
  shows "parseISODate (Format \<lparr>Year = y, Month = m, Day = d\<rparr>) = Some (y, m, d)"
proof -
  let ?A = "appendInt y 4" and ?B = "appendInt m 2" and ?C = "appendInt d 2"
  have d31: "d \<le> 31" using assms(6) daysIn_bounds(2) [of y m] by linarith
  have A: "length ?A = 4" "list_all is_digit ?A" "int (digitsValue ?A) = y"
    using appendInt_field [of y 4] assms(1,2) by simp_all
  have B: "length ?B = 2" "list_all is_digit ?B" "int (digitsValue ?B) = m"
    using appendInt_field [of m 2] assms(3,4) by simp_all
  have C: "length ?C = 2" "list_all is_digit ?C" "int (digitsValue ?C) = d"
    using appendInt_field [of d 2] assms(5) d31 by simp_all
  define s where "s = ?A @ CHR ''-'' # ?B @ CHR ''-'' # ?C"
  have f: "Format \<lparr>Year = y, Month = m, Day = d\<rparr> = s" by (simp add: Format_def s_def)
  have len: "length s = 10" using A(1) B(1) C(1) by (simp add: s_def)
  have t4: "take 4 s = ?A" using A(1) by (simp add: s_def)
  have d5: "drop 5 s = ?B @ CHR ''-'' # ?C" using A(1) by (simp add: s_def)
  have t2: "take 2 (drop 5 s) = ?B" using B(1) by (simp add: d5)
  have d8: "drop 8 s = ?C"
  proof -
    have "drop 8 s = drop 3 (drop 5 s)" by simp
    also have "\<dots> = ?C" using B(1) by (simp add: d5)
    finally show ?thesis .
  qed
  have s4: "s ! 4 = CHR ''-''" using A(1) by (simp add: s_def nth_append)
  have s7: "s ! 7 = CHR ''-''"
  proof -
    have "s ! 7 = (drop 5 s) ! 2" using len by simp
    also have "\<dots> = CHR ''-''" using B(1) by (simp add: d5 nth_append)
    finally show ?thesis .
  qed
  show ?thesis
    unfolding f parseISODate_def t4 t2 d8 Let_def
    using len s4 s7 A B C assms by simp
qed

text \<open>
  Claim C4 asks that the day be drawn within the selected month. The code takes the
  zero-th day of the selected month itself, which is the last day of the month before:
  for the year 2021, a first draw of 1 selects February, the bound on the day is the 31
  of January, a second draw of 30 gives the day 31, and the date is normalised to the
  third of March.
\<close>

theorem randomizeDate_day_beyond_month:
  "Intn 12 (\<lambda>i. if i = 0 then 1 else 30) = Inr (1, advance (\<lambda>i. if i = 0 then 1 else 30)) \<and>
   Day (date 2021 2 0) = 31 \<and> daysIn 2021 2 = 28 \<and>
   date 2021 2 31 = \<lparr>Year = 2021, Month = 3, Day = 3\<rparr> \<and>
   map_sum id fst (randomizeDate 2021 (\<lambda>i. if i = 0 then 1 else 30)) = Inr ''2021-03-03''"
proof -
  have "Intn 12 (\<lambda>i. if i = 0 then 1 else 30) = Inr (1, advance (\<lambda>i. if i = 0 then 1 else 30))"
    by (simp add: Intn_def)
  moreover have "Day (date 2021 2 0) = 31 \<and> daysIn 2021 2 = 28 \<and>
   date 2021 2 31 = \<lparr>Year = 2021, Month = 3, Day = 3\<rparr> \<and>
   map_sum id fst (randomizeDate 2021 (\<lambda>i. if i = 0 then 1 else 30)) = Inr ''2021-03-03''"
    by code_simp
  ultimately show ?thesis by simp
qed

text \<open>
  Claim C5. For every year from 1 to 9999 and every sequence of draws,
  \<open>randomizeDate\<close> returns a string that reads back as a day of the calendar in that
  year; the day is the 29 of February only in a leap year.
\<close>

theorem randomizeDate_valid_in_year:
  assumes "1 \<le> y" and "y \<le> 9999"
  shows "\<exists>s g' m d. randomizeDate y g = Inr (s, g') \<and> parseISODate s = Some (y, m, d) \<and>
           (m = 2 \<and> d = 29 \<longrightarrow> isLeap y)"
proof -
  define rm where "rm = int (g 0) mod 12 + 1"
  define mmd where "mmd = Day (date y rm 0)"
  define g1 where "g1 = advance g"
  define rd where "rd = int (g1 0) mod mmd + 1"
  have m: "1 \<le> rm" "rm \<le> 12" by (simp_all add: rm_def)
  have i1: "Intn 12 g = Inr (rm - 1, g1)" by (simp add: Intn_def rm_def g1_def)
  have mmd: "mmd = (if rm = 1 then 31 else daysIn y (rm - 1))"
    using monthMaxDay [OF m] by (simp add: mmd_def)
  have pos: "0 < mmd" using daysIn_bounds(1) [of y "rm - 1"] by (simp add: mmd)
  have i2: "Intn mmd g1 = Inr (rd - 1, advance g1)" using pos by (simp add: Intn_def rd_def)
  have "0 \<le> int (g1 0) mod mmd" "int (g1 0) mod mmd < mmd"
    using pos by (rule pos_mod_sign, rule pos_mod_bound)
  then have "1 \<le> rd" "rd \<le> mmd" unfolding rd_def by linarith+
  then have d: "1 \<le> rd" "rd \<le> Day (date y rm 0)"
    by (simp_all add: mmd_def)
  have r: "randomizeDate y g = Inr (Format (date y rm rd), advance g1)"
    unfolding randomizeDate_def Let_def using i1 i2 by (simp add: mmd_def)
  obtain mo da where t: "date y rm rd = \<lparr>Year = y, Month = mo, Day = da\<rparr>"
    "1 \<le> mo" "mo \<le> 12" "1 \<le> da" "da \<le> daysIn y mo"
    using date_in_year [OF m d] by blast
  have p: "parseISODate (Format (date y rm rd)) = Some (y, mo, da)"
    using parse_Format [of y mo da] assms t by simp
  have "isLeap y" if "mo = 2" "da = 29"
    using t(5) that by (simp add: daysIn_def split: if_splits)
  then show ?thesis using r p by blast
qed

text \<open>The leap year 2024 with the draws that give the 29 of February.\<close>

theorem randomizeDate_valid_in_year_witness:
  "(1::int) \<le> 2024 \<and> (2024::int) \<le> 9999 \<and>
   map_sum id fst (randomizeDate 2024 (\<lambda>i. if i = 0 then 1 else 28)) = Inr ''2024-02-29'' \<and>
   parseISODate ''2024-02-29'' = Some (2024, 2, 29) \<and> isLeap 2024"
proof -
  have e: "map_sum id fst (randomizeDate 2024 (\<lambda>i. if i = 0 then 1 else 28)) = Inr ''2024-02-29''"
    by code_simp
  have q: "parseISODate ''2024-02-29'' = Some (2024, 2, 29)"
    by code_simp
  obtain s g' m d where t: "randomizeDate 2024 (\<lambda>i. if i = 0 then 1 else 28) = Inr (s, g')"
    "parseISODate s = Some (2024, m, d)" "m = 2 \<and> d = 29 \<longrightarrow> isLeap 2024"
    using randomizeDate_valid_in_year [of 2024 "\<lambda>i. if i = 0 then 1 else 28"] by auto
  have "s = ''2024-02-29''" using e t(1) by simp
  then have "m = 2 \<and> d = 29" using q t(2) by simp
  then show ?thesis using e q t(3) by simp
qed

section \<open>Consistency over sequences of invocations\<close>

text \<open>
  Claim C9. In every state reached from the empty maps by a sequence of invocations,
  an entry of one of the three maps is still there, with the same value, after any
  further sequence of invocations: no value is changed and no entry is removed.
\<close>

theorem consistency_maps_write_once:
  assumes "run Parse String (init g r) xs = Inr st1" and "run Parse String st1 ys = Inr st2"
  shows "(\<forall>scope inner raw v.
            Mapping.lookup (AlphaNumericMap st1) scope = Some inner \<and> Mapping.lookup inner raw = Some v \<longrightarrow>
            (\<exists>inner'. Mapping.lookup (AlphaNumericMap st2) scope = Some inner' \<and>
                       Mapping.lookup inner' raw = Some v)) \<and>
         (\<forall>k v. Mapping.lookup (UUIDMap st1) k = Some v \<longrightarrow> Mapping.lookup (UUIDMap st2) k = Some v) \<and>
         (\<forall>k v. Mapping.lookup (IBANMap st1) k = Some v \<longrightarrow> Mapping.lookup (IBANMap st2) k = Some v)"
proof -
  have ok: "maps_ok st1" using maps_ok_run [OF maps_ok_init assms(1)] .
  note F = run_frame [OF assms(2)]
  have "\<exists>inner'. Mapping.lookup (AlphaNumericMap st2) scope = Some inner' \<and> Mapping.lookup inner' raw = Some v"
    if h: "Mapping.lookup (AlphaNumericMap st1) scope = Some inner" "Mapping.lookup inner raw = Some v"
    for scope inner raw v
  proof -
    have a: "alpha st1 scope raw = Some v" using h by (simp add: alpha_def)
    then have "length v = length raw" using ok by (simp add: maps_ok_def)
    then have "v = [] \<longrightarrow> raw = []" by auto
    then have "alpha st2 scope raw = Some v" using F a by blast
    then show ?thesis by (auto simp: alpha_def split: option.splits)
  qed
  then show ?thesis using F by blast
qed

lemma sum_case_ex: "(case x of Inl p \<Rightarrow> False | Inr y \<Rightarrow> Q y) \<Longrightarrow> \<exists>y. x = Inr y \<and> Q y"
  by (cases x) auto

text \<open>Three invocations that fill the maps, then six more on the same and on other inputs.\<close>

theorem consistency_maps_write_once_witness:
  "\<exists>st1 st2.
     run uuid_Parse uuid_String (init (\<lambda>i. i) (\<lambda>i. Inr (replicate 16 (of_nat i))))
        [AlphaNumericScrambler \<lparr>ParentSchema = ''public'', ParentTable = ''users'', ParentColumn = ''ssn''\<rparr> ''ab-1'',
         IBANScrambler \<lparr>ParentSchema = [], ParentTable = [], ParentColumn = []\<rparr> ''DE89'',
         RandomUUID \<lparr>ParentSchema = [], ParentTable = [], ParentColumn = []\<rparr> ''00000000-0000-0000-0000-000000000001'']
       = Inr st1 \<and>
     run uuid_Parse uuid_String st1
        [AlphaNumericScrambler \<lparr>ParentSchema = ''public'', ParentTable = ''users'', ParentColumn = ''ssn''\<rparr> ''ab-1'',
         OtherProcessor ''x'' None (\<lambda>i. 7),
         AlphaNumericScrambler \<lparr>ParentSchema = ''public'', ParentTable = ''users'', ParentColumn = ''ssn''\<rparr> ''cd-2'',
         IBANScrambler \<lparr>ParentSchema = [], ParentTable = [], ParentColumn = []\<rparr> ''DE89'',
         IBANScrambler \<lparr>ParentSchema = [], ParentTable = [], ParentColumn = []\<rparr> ''FR76'',
         RandomUUID \<lparr>ParentSchema = [], ParentTable = [], ParentColumn = []\<rparr> ''00000000-0000-0000-0000-000000000001'']
       = Inr st2 \<and>
     alpha st1 ''public.users.ssn'' ''ab-1'' = Some ''ab-2'' \<and>
     alpha st2 ''public.users.ssn'' ''ab-1'' = Some ''ab-2'' \<and>
     Mapping.lookup (IBANMap st1) ''DE89'' = Some ''DE34'' \<and>
     Mapping.lookup (IBANMap st2) ''DE89'' = Some ''DE34'' \<and>
     Mapping.lookup (UUIDMap st1) [0, 0, 0, 0, 0, 0, 0, 0, 0, 0, 0, 0, 0, 0, 0, 1] = Some (replicate 16 0) \<and>
     Mapping.lookup (UUIDMap st2) [0, 0, 0, 0, 0, 0, 0, 0, 0, 0, 0, 0, 0, 0, 0, 1] = Some (replicate 16 0)"
proof -
  let ?st0 = "init (\<lambda>i. i) (\<lambda>i. Inr (replicate 16 (of_nat i)))"
  let ?xs = "[AlphaNumericScrambler \<lparr>ParentSchema = ''public'', ParentTable = ''users'', ParentColumn = ''ssn''\<rparr> ''ab-1'',
         IBANScrambler \<lparr>ParentSchema = [], ParentTable = [], ParentColumn = []\<rparr> ''DE89'',
         RandomUUID \<lparr>ParentSchema = [], ParentTable = [], ParentColumn = []\<rparr> ''00000000-0000-0000-0000-000000000001'']"
  let ?ys = "[AlphaNumericScrambler \<lparr>ParentSchema = ''public'', ParentTable = ''users'', ParentColumn = ''ssn''\<rparr> ''ab-1'',
         OtherProcessor ''x'' None (\<lambda>i. 7),
         AlphaNumericScrambler \<lparr>ParentSchema = ''public'', ParentTable = ''users'', ParentColumn = ''ssn''\<rparr> ''cd-2'',
         IBANScrambler \<lparr>ParentSchema = [], ParentTable = [], ParentColumn = []\<rparr> ''DE89'',
         IBANScrambler \<lparr>ParentSchema = [], ParentTable = [], ParentColumn = []\<rparr> ''FR76'',
         RandomUUID \<lparr>ParentSchema = [], ParentTable = [], ParentColumn = []\<rparr> ''00000000-0000-0000-0000-000000000001'']"
  have "case run uuid_Parse uuid_String ?st0 ?xs of
     Inl p \<Rightarrow> False
   | Inr st1 \<Rightarrow>
      (case run uuid_Parse uuid_String st1 ?ys of
        Inl p \<Rightarrow> False
      | Inr st2 \<Rightarrow>
          alpha st1 ''public.users.ssn'' ''ab-1'' = Some ''ab-2'' \<and>
          Mapping.lookup (IBANMap st1) ''DE89'' = Some ''DE34'' \<and>
          Mapping.lookup (UUIDMap st1) [0, 0, 0, 0, 0, 0, 0, 0, 0, 0, 0, 0, 0, 0, 0, 1] = Some (replicate 16 0))"
    by code_simp
  then obtain st1 where 1: "run uuid_Parse uuid_String ?st0 ?xs = Inr st1"
    and "case run uuid_Parse uuid_String st1 ?ys of
        Inl p \<Rightarrow> False
      | Inr st2 \<Rightarrow>
          alpha st1 ''public.users.ssn'' ''ab-1'' = Some ''ab-2'' \<and>
          Mapping.lookup (IBANMap st1) ''DE89'' = Some ''DE34'' \<and>
          Mapping.lookup (UUIDMap st1) [0, 0, 0, 0, 0, 0, 0, 0, 0, 0, 0, 0, 0, 0, 0, 1] = Some (replicate 16 0)"
    by (auto dest!: sum_case_ex)
  then obtain st2 where 2: "run uuid_Parse uuid_String st1 ?ys = Inr st2"
    and e: "alpha st1 ''public.users.ssn'' ''ab-1'' = Some ''ab-2''"
      "Mapping.lookup (IBANMap st1) ''DE89'' = Some ''DE34''"
      "Mapping.lookup (UUIDMap st1) [0, 0, 0, 0, 0, 0, 0, 0, 0, 0, 0, 0, 0, 0, 0, 1] = Some (replicate 16 0)"
    by (auto dest!: sum_case_ex)
  note W = consistency_maps_write_once [OF 1 2]
  obtain inner where "Mapping.lookup (AlphaNumericMap st1) ''public.users.ssn'' = Some inner"
    "Mapping.lookup inner ''ab-1'' = Some ''ab-2''"
    using e(1) by (auto simp: alpha_def split: option.splits)
  then have "alpha st2 ''public.users.ssn'' ''ab-1'' = Some ''ab-2''"
    using W by (fastforce simp: alpha_def)
  moreover have "Mapping.lookup (IBANMap st2) ''DE89'' = Some ''DE34''"
    using W e(2) by blast
  moreover have "Mapping.lookup (UUIDMap st2) [0, 0, 0, 0, 0, 0, 0, 0, 0, 0, 0, 0, 0, 0, 0, 1] = Some (replicate 16 0)"
    using W e(3) by blast
  ultimately show ?thesis using 1 2 e by blast
qed

text \<open>
  Claim C8. In every state reached from the empty maps, on an input of at least two
  bytes the IBAN processor returns an output with the first two bytes of the input, whose
  rest is a scramble of the rest of the input (the scramble by the current random source
  when the input was not in the map), and \<open>IBANMap\<close> holds the output under the input
  afterwards.
\<close>

theorem IBANScrambler_prefix_scramble_memo:
  assumes "run Parse String (init g r) calls = Inr st" and "2 \<le> length input"
  shows "\<exists>out st'. ProcessorIBANScrambler cmap input st = Inr (out, None, st') \<and>
           take 2 out = take 2 input \<and>
           (\<exists>g0 g1. scrambleString (drop 2 input) g0 = Inr (drop 2 out, g1)) \<and>
           (Mapping.lookup (IBANMap st) input = None \<longrightarrow>
              scrambleString (drop 2 input) (rand st) = Inr (drop 2 out, rand st')) \<and>
           Mapping.lookup (IBANMap st') input = Some out"
proof (cases "Mapping.lookup (IBANMap st) input")
  case None
  obtain out st' where r: "ProcessorIBANScrambler cmap input st = Inr (out, None, st')"
    using PIS_miss [OF None assms(2), of cmap] by blast
  note R = PIS_result [OF r]
  have "take 2 out = take 2 input"
    "scrambleString (drop 2 input) (rand st) = Inr (drop 2 out, rand st')"
    "Mapping.lookup (IBANMap st') input = Some out"
    using R None by simp_all
  then show ?thesis using r by blast
next
  case (Some v)
  have ok: "maps_ok st" using maps_ok_run [OF maps_ok_init assms(1)] .
  then have "take 2 v = take 2 input" "\<exists>g0 g1. scrambleString (drop 2 input) g0 = Inr (drop 2 v, g1)"
    using Some by (auto simp: maps_ok_def)
  then show ?thesis using PIS_hit [OF Some, of cmap] Some by auto
qed

text \<open>An IBAN that is not in the map after two other invocations.\<close>

theorem IBANScrambler_prefix_scramble_memo_witness:
  "\<exists>st. run uuid_Parse uuid_String (init (\<lambda>i. 2 * i + 1) (\<lambda>i. Inl randReadError))
          [IBANScrambler \<lparr>ParentSchema = [], ParentTable = [], ParentColumn = []\<rparr> ''FR76 3000'',
           RandomBoolean \<lparr>ParentSchema = [], ParentTable = [], ParentColumn = []\<rparr> ''t''] = Inr st \<and>
        (2::nat) \<le> length ''DE89 3704 aB'' \<and>
        (\<exists>out st'. ProcessorIBANScrambler \<lparr>ParentSchema = [], ParentTable = [], ParentColumn = []\<rparr>
              ''DE89 3704 aB'' st = Inr (out, None, st') \<and>
           take 2 out = ''DE'' \<and>
           scrambleString ''89 3704 aB'' (rand st) = Inr (drop 2 out, rand st') \<and>
           Mapping.lookup (IBANMap st') ''DE89 3704 aB'' = Some out)"
proof -
  let ?cm = "\<lparr>ParentSchema = [], ParentTable = [], ParentColumn = []\<rparr>"
  have "case run uuid_Parse uuid_String (init (\<lambda>i. 2 * i + 1) (\<lambda>i. Inl randReadError))
          [IBANScrambler ?cm ''FR76 3000'', RandomBoolean ?cm ''t''] of
          Inl p \<Rightarrow> False | Inr st \<Rightarrow> Mapping.lookup (IBANMap st) ''DE89 3704 aB'' = None"
    by code_simp
  then obtain st where st: "run uuid_Parse uuid_String (init (\<lambda>i. 2 * i + 1) (\<lambda>i. Inl randReadError))
          [IBANScrambler ?cm ''FR76 3000'', RandomBoolean ?cm ''t''] = Inr st"
      "Mapping.lookup (IBANMap st) ''DE89 3704 aB'' = None"
    by (auto dest!: sum_case_ex)
  have len: "(2::nat) \<le> length ''DE89 3704 aB''" by simp
  show ?thesis
    using IBANScrambler_prefix_scramble_memo [OF st(1) len, of ?cm] st len by auto
qed

lemma sum_case_ex3:
  "(case x of Inl p \<Rightarrow> False | Inr (a, b, c) \<Rightarrow> Q a b c) \<Longrightarrow> \<exists>a b c. x = Inr (a, b, c) \<and> Q a b c"
  by (cases x) auto

text \<open>
  Claim C2 as stated fails for the UUID processor: when \<^verbatim>\<open>uuid.NewRandom\<close> fails in the
  first invocation, the processor returns the empty string and the error and stores
  nothing; the second invocation on the same input returns a UUID.
\<close>

theorem RandomUUID_generator_failure_counterexample:
  "uuid_Parse ''00000000-0000-0000-0000-000000000001'' = Inr [0, 0, 0, 0, 0, 0, 0, 0, 0, 0, 0, 0, 0, 0, 0, 1] \<and>
   (case ProcessorRandomUUID uuid_Parse uuid_String \<lparr>ParentSchema = [], ParentTable = [], ParentColumn = []\<rparr>
           ''00000000-0000-0000-0000-000000000001''
           (init (\<lambda>i. i) (\<lambda>i. if i = 0 then Inl randReadError else Inr (replicate 16 7))) of
      Inl p \<Rightarrow> False
    | Inr (out1, err1, st1) \<Rightarrow>
        out1 = [] \<and> err1 = Some randReadError \<and>
        (case ProcessorRandomUUID uuid_Parse uuid_String \<lparr>ParentSchema = [], ParentTable = [], ParentColumn = []\<rparr>
                ''00000000-0000-0000-0000-000000000001'' st1 of
           Inl p \<Rightarrow> False
         | Inr (out2, err2, st2) \<Rightarrow>
             out2 = ''07070707-0707-0707-0707-070707070707'' \<and> err2 = None \<and> out2 \<noteq> out1))"
  by code_simp

text \<open>
  Claim C2, amended. From any state, and whatever is invoked and drawn in between: a
  second invocation of the alphanumeric processor with the same raw value and the same
  non-empty parent scope returns the output of the first; a second invocation of the
  UUID processor with the same parseable input returns the output of the first when
  the first returned no error; a second invocation of the IBAN processor with the same
  input returns the output of the first when the first returned.
\<close>

theorem consistency_idempotence:
  "(ParentSchema cmap \<noteq> [] \<and> ParentTable cmap \<noteq> [] \<and> ParentColumn cmap \<noteq> [] \<and>
    ProcessorAlphaNumericScrambler cmap v st = Inr (outA, errA, stA) \<and>
    run Parse String stA calls = Inr stB \<longrightarrow>
      (\<exists>stC. ProcessorAlphaNumericScrambler cmap v stB = Inr (outA, None, stC))) \<and>
   (Parse v = Inr u \<and>
    ProcessorRandomUUID Parse String cmap v st = Inr (outA, None, stA) \<and>
    run Parse String stA calls = Inr stB \<longrightarrow>
      (\<exists>stC. ProcessorRandomUUID Parse String cmap' v stB = Inr (outA, None, stC))) \<and>
   (ProcessorIBANScrambler cmap v st = Inr (outA, errA, stA) \<and>
    run Parse String stA calls = Inr stB \<longrightarrow>
      (\<exists>stC. ProcessorIBANScrambler cmap' v stB = Inr (outA, None, stC)))"
proof (intro conjI impI; elim conjE)
  assume ne: "ParentSchema cmap \<noteq> []" "ParentTable cmap \<noteq> []" "ParentColumn cmap \<noteq> []"
    and r1: "ProcessorAlphaNumericScrambler cmap v st = Inr (outA, errA, stA)"
    and rn: "run Parse String stA calls = Inr stB"
  obtain out0 st0 where l: "ProcessorAlphaNumericScrambler cmap v st = Inr (out0, None, st0)"
      "\<forall>k raw. alpha st0 k raw = (if k = parentKey cmap \<and> raw = v then Some out0 else alpha st k raw)"
      "out0 = [] \<longrightarrow> v = []"
    using PAS_linked [OF ne, of v st] by blast
  have e: "out0 = outA" "st0 = stA" using l(1) r1 by simp_all
  have a1: "alpha stA (parentKey cmap) v = Some outA" using l(2) e by simp
  have a2: "alpha stB (parentKey cmap) v = Some outA"
    using run_frame [OF rn] a1 l(3) e by blast
  show "\<exists>stC. ProcessorAlphaNumericScrambler cmap v stB = Inr (outA, None, stC)"
  proof (cases "outA = []")
    case False
    then show ?thesis using PAS_hit [OF ne a2] by blast
  next
    case True
    then have v: "v = []" using l(3) e by simp
    obtain outC stC where r3: "ProcessorAlphaNumericScrambler cmap v stB = Inr (outC, None, stC)"
      using PAS_linked [OF ne, of v stB] by blast
    have "length outC = length v"
      using PAS_linked_miss_len [OF ne _ r3] a2 True by simp
    then have "outC = outA" using v True by simp
    then show ?thesis using r3 by blast
  qed
next
  assume p: "Parse v = Inr u"
    and r1: "ProcessorRandomUUID Parse String cmap v st = Inr (outA, None, stA)"
    and rn: "run Parse String stA calls = Inr stB"
  have ru: "randomizeUUID String u st = (outA, None, stA)"
    using r1 p by (simp add: ProcessorRandomUUID_def)
  obtain w where w: "Mapping.lookup (UUIDMap stA) u = Some w" "outA = String w"
    using randomizeUUID_result [OF ru] by blast
  have "Mapping.lookup (UUIDMap stB) u = Some w"
    using run_frame [OF rn] w(1) by blast
  then have "randomizeUUID String u stB = (outA, None, stB)"
    using randomizeUUID_hit w(2) by simp
  then show "\<exists>stC. ProcessorRandomUUID Parse String cmap' v stB = Inr (outA, None, stC)"
    using p by (simp add: ProcessorRandomUUID_def)
next
  assume r1: "ProcessorIBANScrambler cmap v st = Inr (outA, errA, stA)"
    and rn: "run Parse String stA calls = Inr stB"
  have "Mapping.lookup (IBANMap stA) v = Some outA"
    using PIS_result [OF r1] by simp
  then have "Mapping.lookup (IBANMap stB) v = Some outA"
    using run_frame [OF rn] by blast
  then show "\<exists>stC. ProcessorIBANScrambler cmap' v stB = Inr (outA, None, stC)"
    using PIS_hit by blast
qed

text \<open>The scenario of the specification, a UUID and an IBAN, each invoked twice.\<close>

theorem consistency_idempotence_witness:
  "(\<exists>outA errA stA stB.
      ProcessorAlphaNumericScrambler \<lparr>ParentSchema = ''public'', ParentTable = ''users'', ParentColumn = ''ssn''\<rparr>
        ''ABC-1a2bC'' (init (\<lambda>i. 3 * i + 1) (\<lambda>i. Inl randReadError)) = Inr (outA, errA, stA) \<and>
      run uuid_Parse uuid_String stA
        [OtherProcessor ''x'' None (\<lambda>i. 7),
         AlphaNumericScrambler \<lparr>ParentSchema = ''public'', ParentTable = ''users'', ParentColumn = ''ssn''\<rparr> ''zz'',
         RandomBoolean \<lparr>ParentSchema = [], ParentTable = [], ParentColumn = []\<rparr> ''t''] = Inr stB \<and>
      outA = ''BEH-0n6tW'' \<and>
      (\<exists>stC. ProcessorAlphaNumericScrambler \<lparr>ParentSchema = ''public'', ParentTable = ''users'', ParentColumn = ''ssn''\<rparr>
        ''ABC-1a2bC'' stB = Inr (outA, None, stC))) \<and>
   (\<exists>u outA stA stB.
      uuid_Parse ''00000000-0000-0000-0000-000000000001'' = Inr u \<and>
      ProcessorRandomUUID uuid_Parse uuid_String \<lparr>ParentSchema = [], ParentTable = [], ParentColumn = []\<rparr>
        ''00000000-0000-0000-0000-000000000001'' (init (\<lambda>i. i) (\<lambda>i. Inr (replicate 16 (of_nat i)))) =
        Inr (outA, None, stA) \<and>
      run uuid_Parse uuid_String stA
        [RandomUUID \<lparr>ParentSchema = [], ParentTable = [], ParentColumn = []\<rparr> ''00000000-0000-0000-0000-000000000002''] =
        Inr stB \<and>
      outA = ''00000000-0000-0000-0000-000000000000'' \<and>
      (\<exists>stC. ProcessorRandomUUID uuid_Parse uuid_String \<lparr>ParentSchema = ''public'', ParentTable = ''users'', ParentColumn = ''id''\<rparr>
        ''00000000-0000-0000-0000-000000000001'' stB = Inr (outA, None, stC))) \<and>
   (\<exists>outA errA stA stB.
      ProcessorIBANScrambler \<lparr>ParentSchema = [], ParentTable = [], ParentColumn = []\<rparr>
        ''DE89 3704'' (init (\<lambda>i. i) (\<lambda>i. Inl randReadError)) = Inr (outA, errA, stA) \<and>
      run uuid_Parse uuid_String stA
        [IBANScrambler \<lparr>ParentSchema = [], ParentTable = [], ParentColumn = []\<rparr> ''FR76 3000''] = Inr stB \<and>
      outA = ''DE01 2345'' \<and>
      (\<exists>stC. ProcessorIBANScrambler \<lparr>ParentSchema = ''public'', ParentTable = ''users'', ParentColumn = ''id''\<rparr>
        ''DE89 3704'' stB = Inr (outA, None, stC)))"
proof (intro conjI)
  let ?cm = "\<lparr>ParentSchema = ''public'', ParentTable = ''users'', ParentColumn = ''ssn''\<rparr>"
  let ?no = "\<lparr>ParentSchema = [], ParentTable = [], ParentColumn = []\<rparr>"
  let ?calls = "[OtherProcessor ''x'' None (\<lambda>i. 7), AlphaNumericScrambler ?cm ''zz'', RandomBoolean ?no ''t'']"
  have "case ProcessorAlphaNumericScrambler ?cm ''ABC-1a2bC'' (init (\<lambda>i. 3 * i + 1) (\<lambda>i. Inl randReadError)) of
          Inl p \<Rightarrow> False
        | Inr (outA, errA, stA) \<Rightarrow>
            (case run uuid_Parse uuid_String stA ?calls of Inl p \<Rightarrow> False | Inr stB \<Rightarrow> outA = ''BEH-0n6tW'')"
    by code_simp
  then obtain outA errA stA where 1:
    "ProcessorAlphaNumericScrambler ?cm ''ABC-1a2bC'' (init (\<lambda>i. 3 * i + 1) (\<lambda>i. Inl randReadError)) = Inr (outA, errA, stA)"
    and "case run uuid_Parse uuid_String stA ?calls of Inl p \<Rightarrow> False | Inr stB \<Rightarrow> outA = ''BEH-0n6tW''"
    by (auto dest!: sum_case_ex3)
  then obtain stB where 2: "run uuid_Parse uuid_String stA ?calls = Inr stB" and o: "outA = ''BEH-0n6tW''"
    by (auto dest!: sum_case_ex)
  have "\<exists>stC. ProcessorAlphaNumericScrambler ?cm ''ABC-1a2bC'' stB = Inr (outA, None, stC)"
    using consistency_idempotence [where cmap = ?cm and v = "''ABC-1a2bC''" and outA = outA and errA = errA
        and stA = stA and stB = stB and Parse = uuid_Parse and String = uuid_String and calls = ?calls
        and st = "init (\<lambda>i. 3 * i + 1) (\<lambda>i. Inl randReadError)"] 1 2
    by simp
  then show "\<exists>outA errA stA stB.
      ProcessorAlphaNumericScrambler ?cm ''ABC-1a2bC'' (init (\<lambda>i. 3 * i + 1) (\<lambda>i. Inl randReadError)) = Inr (outA, errA, stA) \<and>
      run uuid_Parse uuid_String stA ?calls = Inr stB \<and>
      outA = ''BEH-0n6tW'' \<and>
      (\<exists>stC. ProcessorAlphaNumericScrambler ?cm ''ABC-1a2bC'' stB = Inr (outA, None, stC))"
    using 1 2 o by blast
next
  let ?cm = "\<lparr>ParentSchema = ''public'', ParentTable = ''users'', ParentColumn = ''id''\<rparr>"
  let ?no = "\<lparr>ParentSchema = [], ParentTable = [], ParentColumn = []\<rparr>"
  let ?v = "''00000000-0000-0000-0000-000000000001''"
  let ?st = "init (\<lambda>i. i) (\<lambda>i. Inr (replicate 16 (of_nat i)))"
  let ?calls = "[RandomUUID ?no ''00000000-0000-0000-0000-000000000002'']"
  have p: "uuid_Parse ?v = Inr [0, 0, 0, 0, 0, 0, 0, 0, 0, 0, 0, 0, 0, 0, 0, 1]"
    by code_simp
  have "case ProcessorRandomUUID uuid_Parse uuid_String ?no ?v ?st of
          Inl p \<Rightarrow> False
        | Inr (outA, errA, stA) \<Rightarrow>
            (case run uuid_Parse uuid_String stA ?calls of Inl p \<Rightarrow> False
             | Inr stB \<Rightarrow> outA = ''00000000-0000-0000-0000-000000000000'' \<and> errA = None)"
    by code_simp
  then obtain outA errA stA where 1:
    "ProcessorRandomUUID uuid_Parse uuid_String ?no ?v ?st = Inr (outA, errA, stA)"
    and "case run uuid_Parse uuid_String stA ?calls of Inl p \<Rightarrow> False
             | Inr stB \<Rightarrow> outA = ''00000000-0000-0000-0000-000000000000'' \<and> errA = None"
    by (auto dest!: sum_case_ex3)
  then obtain stB where 2: "run uuid_Parse uuid_String stA ?calls = Inr stB"
    and o: "outA = ''00000000-0000-0000-0000-000000000000''" "errA = None"
    by (auto dest!: sum_case_ex)
  have "\<exists>stC. ProcessorRandomUUID uuid_Parse uuid_String ?cm ?v stB = Inr (outA, None, stC)"
    using consistency_idempotence [where cmap = ?no and cmap' = ?cm and v = ?v and outA = outA
        and stA = stA and stB = stB and Parse = uuid_Parse and String = uuid_String and calls = ?calls
        and st = ?st and u = "[0, 0, 0, 0, 0, 0, 0, 0, 0, 0, 0, 0, 0, 0, 0, 1]"] p 1 2 o(2)
    by simp
  then show "\<exists>u outA stA stB.
      uuid_Parse ?v = Inr u \<and>
      ProcessorRandomUUID uuid_Parse uuid_String ?no ?v ?st = Inr (outA, None, stA) \<and>
      run uuid_Parse uuid_String stA ?calls = Inr stB \<and>
      outA = ''00000000-0000-0000-0000-000000000000'' \<and>
      (\<exists>stC. ProcessorRandomUUID uuid_Parse uuid_String ?cm ?v stB = Inr (outA, None, stC))"
    using p 1 2 o by blast
next
  let ?cm = "\<lparr>ParentSchema = ''public'', ParentTable = ''users'', ParentColumn = ''id''\<rparr>"
  let ?no = "\<lparr>ParentSchema = [], ParentTable = [], ParentColumn = []\<rparr>"
  let ?st = "init (\<lambda>i. i) (\<lambda>i. Inl randReadError)"
  let ?calls = "[IBANScrambler ?no ''FR76 3000'']"
  have "case ProcessorIBANScrambler ?no ''DE89 3704'' ?st of
          Inl p \<Rightarrow> False
        | Inr (outA, errA, stA) \<Rightarrow>
            (case run uuid_Parse uuid_String stA ?calls of Inl p \<Rightarrow> False | Inr stB \<Rightarrow> outA = ''DE01 2345'')"
    by code_simp
  then obtain outA errA stA where 1:
    "ProcessorIBANScrambler ?no ''DE89 3704'' ?st = Inr (outA, errA, stA)"
    and "case run uuid_Parse uuid_String stA ?calls of Inl p \<Rightarrow> False | Inr stB \<Rightarrow> outA = ''DE01 2345''"
    by (auto dest!: sum_case_ex3)
  then obtain stB where 2: "run uuid_Parse uuid_String stA ?calls = Inr stB" and o: "outA = ''DE01 2345''"
    by (auto dest!: sum_case_ex)
  have "\<exists>stC. ProcessorIBANScrambler ?cm ''DE89 3704'' stB = Inr (outA, None, stC)"
    using consistency_idempotence [where cmap = ?no and cmap' = ?cm and v = "''DE89 3704''" and outA = outA
        and errA = errA and stA = stA and stB = stB and Parse = uuid_Parse and String = uuid_String
        and calls = ?calls and st = ?st] 1 2
    by simp
  then show "\<exists>outA errA stA stB.
      ProcessorIBANScrambler ?no ''DE89 3704'' ?st = Inr (outA, errA, stA) \<and>
      run uuid_Parse uuid_String stA ?calls = Inr stB \<and>
      outA = ''DE01 2345'' \<and>
      (\<exists>stC. ProcessorIBANScrambler ?cm ''DE89 3704'' stB = Inr (outA, None, stC))"
    using 1 2 o by blast
qed

end
